theory Spec2Isabelle
  imports Main
begin

section \<open>Strings\<close>

text \<open>
  A JavaScript string is modelled as a \<^typ>\<open>string\<close>: one \<^typ>\<open>char\<close> per UTF-16 code
  unit, for the code units below 256. The emoji constants of the source, which lie
  outside that range, are carried as the bytes of their UTF-8 encoding; nothing below
  measures or inspects them.
\<close>

definition is_space :: "char \<Rightarrow> bool" where
  \<comment> \<open>\<open>\s\<close> of a regular expression, and what \<open>String.prototype.trim\<close> strips:
      TAB, LF, VT, FF, CR, SPACE, NBSP.\<close>
  "is_space c = (c \<in> set [CHR 0x09, CHR 0x0A, CHR 0x0B, CHR 0x0C, CHR 0x0D, CHR 0x20, CHR 0xA0])"

definition word_chars :: "char list" where
  "word_chars = ''ABCDEFGHIJKLMNOPQRSTUVWXYZabcdefghijklmnopqrstuvwxyz0123456789_''"

definition is_word :: "char \<Rightarrow> bool" where
  \<comment> \<open>\<open>\w\<close> of a regular expression: \<open>[A-Za-z0-9_]\<close>.\<close>
  "is_word c = (c \<in> set word_chars)"

definition trim :: "string \<Rightarrow> string" where
  "trim s = rev (dropWhile is_space (rev (dropWhile is_space s)))"

definition upper_chars :: "char list" where
  "upper_chars = ''ABCDEFGHIJKLMNOPQRSTUVWXYZ'' @
     [CHR 0xC0, CHR 0xC1, CHR 0xC2, CHR 0xC3, CHR 0xC4, CHR 0xC5, CHR 0xC6, CHR 0xC7, CHR 0xC8, CHR 0xC9, CHR 0xCA, CHR 0xCB, CHR 0xCC, CHR 0xCD, CHR 0xCE, CHR 0xCF, CHR 0xD0, CHR 0xD1, CHR 0xD2, CHR 0xD3, CHR 0xD4, CHR 0xD5, CHR 0xD6, CHR 0xD8, CHR 0xD9, CHR 0xDA, CHR 0xDB, CHR 0xDC, CHR 0xDD, CHR 0xDE]"

definition lower_chars :: "char list" where
  "lower_chars = ''abcdefghijklmnopqrstuvwxyz'' @
     [CHR 0xE0, CHR 0xE1, CHR 0xE2, CHR 0xE3, CHR 0xE4, CHR 0xE5, CHR 0xE6, CHR 0xE7, CHR 0xE8, CHR 0xE9, CHR 0xEA, CHR 0xEB, CHR 0xEC, CHR 0xED, CHR 0xEE, CHR 0xEF, CHR 0xF0, CHR 0xF1, CHR 0xF2, CHR 0xF3, CHR 0xF4, CHR 0xF5, CHR 0xF6, CHR 0xF8, CHR 0xF9, CHR 0xFA, CHR 0xFB, CHR 0xFC, CHR 0xFD, CHR 0xFE]"

definition lower_char :: "char \<Rightarrow> char" where
  \<comment> \<open>the lower-case mapping of the code units below 256: A-Z and the Latin-1 capitals\<close>
  "lower_char c = (case map_of (zip upper_chars lower_chars) c of Some d \<Rightarrow> d | None \<Rightarrow> c)"

definition upper_char :: "char \<Rightarrow> string" where
  \<comment> \<open>the upper-case mapping of the code units below 256: a-z, the Latin-1 small letters,
      and the sharp s, which becomes \<open>SS\<close>. The two whose capital lies beyond 255 (the micro
      sign and the y with diaeresis) are left as they are, which the source does not do.\<close>
  "upper_char c = (if c = CHR 0xDF then ''SS''
     else [case map_of (zip lower_chars upper_chars) c of Some d \<Rightarrow> d | None \<Rightarrow> c])"

definition toLowerCase :: "string \<Rightarrow> string" where
  "toLowerCase s = map lower_char s"

definition toUpperCase :: "string \<Rightarrow> string" where
  "toUpperCase s = concat (map upper_char s)"

definition startsWith :: "string \<Rightarrow> string \<Rightarrow> bool" where
  \<comment> \<open>\<open>s.startsWith(p)\<close>\<close>
  "startsWith s p = (take (length p) s = p)"

fun regex_search :: "(string \<Rightarrow> 'a option) \<Rightarrow> string \<Rightarrow> 'a option" where
  \<comment> \<open>\<open>s.match(re)\<close> for a pattern without the global flag: the match at the
      leftmost start position; the argument matches the pattern anchored at the start.\<close>
  "regex_search m [] = m []"
| "regex_search m (c # cs) = (case m (c # cs) of Some r \<Rightarrow> Some r | None \<Rightarrow> regex_search m cs)"

definition word_after :: "string \<Rightarrow> string \<Rightarrow> string option" where
  \<comment> \<open>the literal \<open>p\<close> followed by \<open>(\w+)\<close>, anchored; the group is greedy.\<close>
  "word_after p s = (if startsWith s p
     then (let w = takeWhile is_word (drop (length p) s) in if w = [] then None else Some w)
     else None)"

definition brush_param_at :: "string \<Rightarrow> string option" where
  \<comment> \<open>\<open>/brush:\s*(\w+)/\<close>, anchored.\<close>
  "brush_param_at s = (if startsWith s ''brush:''
     then (let w = takeWhile is_word (dropWhile is_space (drop 6 s)) in
           if w = [] then None else Some w)
     else None)"

definition class_lang_at :: "string \<Rightarrow> string option" where
  \<comment> \<open>\<open>/language-(\w+)|lang-(\w+)|brush-(\w+)/\<close>, anchored: the alternatives in order;
      the result is \<open>m[1] || m[2] || m[3]\<close>.\<close>
  "class_lang_at s = (case word_after ''language-'' s of Some w \<Rightarrow> Some w
     | None \<Rightarrow> (case word_after ''lang-'' s of Some w \<Rightarrow> Some w
       | None \<Rightarrow> word_after ''brush-'' s))"

section \<open>The document tree\<close>

text \<open>
  A DOM node is a text node or an element with its tag (the local name, lower case: the
  source's \<open>nodeName === 'TH'\<close> is the tag \<open>th\<close>), its attributes in order, and its
  children. The passes of the source mutate the tree in place; here each pass returns
  the new tree.
\<close>

type_synonym attrs = "(string \<times> string) list"

datatype node = Text string | Element string attrs "node list"

fun tag_of :: "node \<Rightarrow> string" where
  "tag_of (Element t a cs) = t"
| "tag_of (Text s) = ''#text''"

fun attrs_of :: "node \<Rightarrow> attrs" where
  "attrs_of (Element t a cs) = a"
| "attrs_of (Text s) = []"

fun childNodes :: "node \<Rightarrow> node list" where
  "childNodes (Element t a cs) = cs"
| "childNodes (Text s) = []"

fun is_element :: "node \<Rightarrow> bool" where
  "is_element (Element t a cs) = True"
| "is_element (Text s) = False"

definition is_tag :: "string \<Rightarrow> node \<Rightarrow> bool" where
  "is_tag t n = (is_element n \<and> tag_of n = t)"

definition getAttribute :: "node \<Rightarrow> string \<Rightarrow> string option" where
  \<comment> \<open>\<open>null\<close> is \<open>None\<close>\<close>
  "getAttribute n k = map_of (attrs_of n) k"

definition hasAttribute :: "node \<Rightarrow> string \<Rightarrow> bool" where
  "hasAttribute n k = (getAttribute n k \<noteq> None)"

definition or_empty :: "string option \<Rightarrow> string" where
  \<comment> \<open>\<open>x || ''\<close> for a string or \<open>null\<close>\<close>
  "or_empty x = (case x of Some s \<Rightarrow> s | None \<Rightarrow> [])"

definition truthy :: "string option \<Rightarrow> string option" where
  \<comment> \<open>a string or \<open>null\<close> as a condition: \<open>null\<close> and the empty string are falsy\<close>
  "truthy x = (case x of Some s \<Rightarrow> (if s = [] then None else Some s) | None \<Rightarrow> None)"

definition className :: "node \<Rightarrow> string" where
  "className n = or_empty (getAttribute n ''class'')"

fun removeAttribute :: "node \<Rightarrow> string \<Rightarrow> node" where
  "removeAttribute (Element t a cs) k = Element t (filter (\<lambda>(k', v). k' \<noteq> k) a) cs"
| "removeAttribute (Text s) k = Text s"

fun set_attr :: "attrs \<Rightarrow> string \<Rightarrow> string \<Rightarrow> attrs" where
  "set_attr [] k v = [(k, v)]"
| "set_attr ((k', v') # a) k v = (if k' = k then (k, v) # a else (k', v') # set_attr a k v)"

fun setAttribute :: "node \<Rightarrow> string \<Rightarrow> string \<Rightarrow> node" where
  "setAttribute (Element t a cs) k v = Element t (set_attr a k v) cs"
| "setAttribute (Text s) k v = Text s"

fun first_desc :: "(node \<Rightarrow> bool) \<Rightarrow> node list \<Rightarrow> node option" where
  \<comment> \<open>\<open>querySelector\<close> over a list of sibling subtrees: the first element in
      document order that satisfies the selector\<close>
  "first_desc P [] = None"
| "first_desc P (Text s # ns) = first_desc P ns"
| "first_desc P (Element t a cs # ns) =
     (if P (Element t a cs) then Some (Element t a cs)
      else (case first_desc P cs of Some n \<Rightarrow> Some n | None \<Rightarrow> first_desc P ns))"

definition querySelector :: "node \<Rightarrow> (node \<Rightarrow> bool) \<Rightarrow> node option" where
  \<comment> \<open>the descendants of the node only, never the node itself\<close>
  "querySelector n P = first_desc P (childNodes n)"

section \<open>Code-block language detection\<close>

datatype jsval = Str string | Inherited string

definition object_prototype_keys :: "string list" where
  \<comment> \<open>the property names every object literal inherits from \<open>Object.prototype\<close>\<close>
  "object_prototype_keys = [''constructor'', ''__defineGetter__'', ''__defineSetter__'',
     ''hasOwnProperty'', ''__lookupGetter__'', ''__lookupSetter__'', ''isPrototypeOf'',
     ''propertyIsEnumerable'', ''toString'', ''valueOf'', ''__proto__'', ''toLocaleString'']"

definition language_map :: "(string \<times> string) list" where
  "language_map = [(''js'', ''javascript''), (''ts'', ''typescript''), (''py'', ''python''),
     (''rb'', ''ruby''), (''sh'', ''bash''), (''shell'', ''bash''), (''yml'', ''yaml''),
     (''c#'', ''csharp''), (''c++'', ''cpp'')]"

definition object_get :: "(string \<times> string) list \<Rightarrow> string \<Rightarrow> jsval option" where
  \<comment> \<open>\<open>map[key]\<close> on an object literal: an own property, else a property inherited from
      \<open>Object.prototype\<close> (a function or an object, never a string), else \<open>undefined\<close>\<close>
  "object_get m k = (case map_of m k of Some v \<Rightarrow> Some (Str v)
     | None \<Rightarrow> (if k \<in> set object_prototype_keys then Some (Inherited k) else None))"

definition normalizeLanguage :: "string \<Rightarrow> jsval" where
  \<comment> \<open>\<open>map[lang.toLowerCase()] || lang.toLowerCase()\<close>: an inherited property is a
      truthy value, an own one a non-empty string\<close>
  "normalizeLanguage lang = (case object_get language_map (toLowerCase lang) of
       Some (Str v) \<Rightarrow> (if v = [] then Str (toLowerCase lang) else Str v)
     | Some (Inherited k) \<Rightarrow> Inherited k
     | None \<Rightarrow> Str (toLowerCase lang))"

definition detectCodeLanguage :: "node \<Rightarrow> node option \<Rightarrow> jsval" where
  "detectCodeLanguage pre panel =
    (let params = or_empty (getAttribute pre ''data-syntaxhighlighter-params'') in
     case regex_search brush_param_at params of
       Some b \<Rightarrow> normalizeLanguage b
     | None \<Rightarrow>
        (let code = querySelector pre (is_tag ''code'');
             classStr = className pre @ '' '' @ (case code of Some c \<Rightarrow> className c | None \<Rightarrow> [])
                        @ '' '' @ (case panel of Some p \<Rightarrow> className p | None \<Rightarrow> [])
         in case regex_search class_lang_at classStr of
              Some l \<Rightarrow> normalizeLanguage l
            | None \<Rightarrow>
               (case truthy (getAttribute pre ''data-language'') of
                  Some d \<Rightarrow> normalizeLanguage d
                | None \<Rightarrow>
                   (case truthy (case panel of Some p \<Rightarrow> getAttribute p ''data-language'' | None \<Rightarrow> None) of
                      Some d \<Rightarrow> normalizeLanguage d
                    | None \<Rightarrow> Str []))))"

section \<open>Locating the content root, and the extraction entry point\<close>

datatype error = Error string

definition content_selectors :: "string list" where
  \<open>content_selectors = [''[data-testid="renderer-page"]'', ''.ak-renderer-document'',
     ''#content .wiki-content'', ''#main-content .wiki-content'', ''.wiki-content'',
     ''#main-content'', ''#content'', ''article[role="main"]'', ''main'']\<close>

fun first_candidate :: "(string \<Rightarrow> 'e option) \<Rightarrow> ('e \<Rightarrow> bool) \<Rightarrow> string list \<Rightarrow> 'e option" where
  \<comment> \<open>\<open>for (const sel of selectors) { const el = document.querySelector(sel);
      if (el && ok(el)) return el; }\<close>, with \<open>None\<close> when the loop falls through\<close>
  "first_candidate qs ok [] = None"
| "first_candidate qs ok (sel # sels) =
     (case qs sel of
        Some el \<Rightarrow> (if ok el then Some el else first_candidate qs ok sels)
      | None \<Rightarrow> first_candidate qs ok sels)"

definition findContentElement :: "(string \<Rightarrow> 'e option) \<Rightarrow> ('e \<Rightarrow> string) \<Rightarrow> 'e option" where
  \<comment> \<open>\<open>qs\<close> is \<open>document.querySelector\<close>, \<open>html\<close> is \<open>el.innerHTML\<close>\<close>
  "findContentElement qs html =
     (case first_candidate qs (\<lambda>el. length (trim (html el)) > 100) content_selectors of
        Some el \<Rightarrow> Some el
      | None \<Rightarrow> first_candidate qs (\<lambda>el. length (trim (html el)) > 0) content_selectors)"

definition extraction_message :: string where
  "extraction_message =
     ''Could not locate the Confluence page content. Make sure you are viewing a Confluence page.''"


section \<open>Queries and rewriting of the tree\<close>

text \<open>
  Comment nodes are not modelled. A selector is a predicate on elements. The source
  runs each pass as \<open>container.querySelectorAll(sel).forEach(...)\<close> over a static list in
  document order; an element inside a subtree that an earlier iteration has replaced is
  detached by then, and replacing it changes nothing of the container. So a pass rewrites
  the topmost matches and descends only where it leaves an element in place.
\<close>

fun textContent_list :: "node list \<Rightarrow> string" where
  "textContent_list [] = []"
| "textContent_list (Text s # ns) = s @ textContent_list ns"
| "textContent_list (Element t a cs # ns) = textContent_list cs @ textContent_list ns"

definition textContent :: "node \<Rightarrow> string" where
  "textContent n = textContent_list [n]"

definition set_text :: "string \<Rightarrow> node list" where
  \<comment> \<open>the children after \<open>el.textContent = s\<close>: none for the empty string\<close>
  "set_text s = (if s = [] then [] else [Text s])"

definition is_ascii_ws :: "char \<Rightarrow> bool" where
  "is_ascii_ws c = (c \<in> set [CHR 0x09, CHR 0x0A, CHR 0x0C, CHR 0x0D, CHR 0x20])"

fun tokens_acc :: "string \<Rightarrow> string \<Rightarrow> string list" where
  "tokens_acc acc [] = (if acc = [] then [] else [acc])"
| "tokens_acc acc (c # cs) =
     (if is_ascii_ws c then (if acc = [] then tokens_acc [] cs else acc # tokens_acc [] cs)
      else tokens_acc (acc @ [c]) cs)"

definition classList :: "node \<Rightarrow> string list" where
  "classList n = tokens_acc [] (className n)"

definition has_class :: "string \<Rightarrow> node \<Rightarrow> bool" where
  \<comment> \<open>the selector \<open>.c\<close>, and \<open>classList.contains(c)\<close>\<close>
  "has_class c n = (is_element n \<and> c \<in> set (classList n))"

definition attr_is :: "string \<Rightarrow> string \<Rightarrow> node \<Rightarrow> bool" where
  \<comment> \<open>the selector \<open>[k="v"]\<close>\<close>
  "attr_is k v n = (is_element n \<and> getAttribute n k = Some v)"

definition has_attr :: "string \<Rightarrow> node \<Rightarrow> bool" where
  \<comment> \<open>the selector \<open>[k]\<close>\<close>
  "has_attr k n = (is_element n \<and> hasAttribute n k)"

fun all_desc :: "(node \<Rightarrow> bool) \<Rightarrow> node list \<Rightarrow> node list" where
  \<comment> \<open>\<open>querySelectorAll\<close>: every matching element, in document order\<close>
  "all_desc P [] = []"
| "all_desc P (Text s # ns) = all_desc P ns"
| "all_desc P (Element t a cs # ns) =
     (if P (Element t a cs) then [Element t a cs] else []) @ all_desc P cs @ all_desc P ns"

definition querySelectorAll :: "node \<Rightarrow> (node \<Rightarrow> bool) \<Rightarrow> node list" where
  "querySelectorAll n P = all_desc P (childNodes n)"

fun rewrite :: "(node \<Rightarrow> node list option) \<Rightarrow> node list \<Rightarrow> node list" where
  \<comment> \<open>\<open>f\<close> gives the nodes that replace a matched element (none: removal), or \<open>None\<close>
      for an element the pass leaves in place\<close>
  "rewrite f [] = []"
| "rewrite f (Text s # ns) = Text s # rewrite f ns"
| "rewrite f (Element t a cs # ns) =
     (case f (Element t a cs) of
        Some r \<Rightarrow> r @ rewrite f ns
      | None \<Rightarrow> Element t a (rewrite f cs) # rewrite f ns)"

fun on_children :: "(node list \<Rightarrow> node list) \<Rightarrow> node \<Rightarrow> node" where
  "on_children f (Element t a cs) = Element t a (f cs)"
| "on_children f (Text s) = Text s"

definition first_truthy :: "string option list \<Rightarrow> string" where
  \<comment> \<open>\<open>a || b || ... || ''\<close>\<close>
  "first_truthy xs = (case List.find (\<lambda>x. truthy x \<noteq> None) xs of Some (Some s) \<Rightarrow> s | _ \<Rightarrow> [])"

subsection \<open>Serialisation\<close>

text \<open>
  \<open>innerHTML\<close> read: the fragment serialisation of the HTML standard. The inverse, the
  fragment parser behind an assignment to \<open>innerHTML\<close>, is the browser's and is taken as
  a parameter (\<open>parse_html\<close> below).
\<close>

definition void_tags :: "string list" where
  "void_tags = [''area'', ''base'', ''basefont'', ''bgsound'', ''br'', ''col'', ''embed'',
     ''frame'', ''hr'', ''img'', ''input'', ''keygen'', ''link'', ''meta'', ''param'',
     ''source'', ''track'', ''wbr'']"

definition raw_text_tags :: "string list" where
  "raw_text_tags = [''style'', ''script'', ''xmp'', ''iframe'', ''noembed'', ''noframes'',
     ''plaintext'', ''noscript'']"

definition escape_text :: "string \<Rightarrow> string" where
  "escape_text s = concat (map (\<lambda>c.
     if c = CHR ''&'' then ''&amp;'' else if c = CHR 0xA0 then ''&nbsp;''
     else if c = CHR ''<'' then ''&lt;'' else if c = CHR ''>'' then ''&gt;'' else [c]) s)"

definition escape_attr :: "string \<Rightarrow> string" where
  "escape_attr s = concat (map (\<lambda>c.
     if c = CHR ''&'' then ''&amp;'' else if c = CHR 0xA0 then ''&nbsp;''
     else if c = CHR 0x22 then ''&quot;''
     else if c = CHR ''<'' then ''&lt;'' else if c = CHR ''>'' then ''&gt;'' else [c]) s)"

definition serialize_attrs :: "attrs \<Rightarrow> string" where
  "serialize_attrs a = concat (map (\<lambda>(k, v). '' '' @ k @ ''='' @ [CHR 0x22] @ escape_attr v @ [CHR 0x22]) a)"

fun serialize :: "bool \<Rightarrow> node list \<Rightarrow> string" where
  \<comment> \<open>the flag: the parent is a raw-text element\<close>
  "serialize raw [] = []"
| "serialize raw (Text s # ns) = (if raw then s else escape_text s) @ serialize raw ns"
| "serialize raw (Element t a cs # ns) =
     ''<'' @ t @ serialize_attrs a @ ''>'' @
     (if t \<in> set void_tags then [] else serialize (t \<in> set raw_text_tags) cs @ ''</'' @ t @ ''>'')
     @ serialize raw ns"

definition innerHTML :: "node \<Rightarrow> string" where
  "innerHTML n = serialize (tag_of n \<in> set raw_text_tags) (childNodes n)"

subsection \<open>What the browser supplies\<close>

datatype fetch_outcome =
    FetchRejected
  | FetchResponse bool string nat "string option"

record env =
  parse_html :: "string \<Rightarrow> node list"
  resolve_url :: "string \<Rightarrow> string option"
  origin :: string
  strip_size_style :: "string \<Rightarrow> string"
  fetch_image :: "string \<Rightarrow> fetch_outcome"
  canvas_image :: "string \<Rightarrow> string option"

text \<open>
  \<^item> \<open>parse_html\<close>: the children an element has after \<open>el.innerHTML = s\<close>;
  \<^item> \<open>resolve_url u\<close>: \<open>new URL(u, window.location.origin).href\<close>, \<open>None\<close> when it throws;
  \<^item> \<open>origin\<close>: \<open>window.location.origin\<close>;
  \<^item> \<open>strip_size_style v\<close>: the value of a \<open>style\<close> attribute \<open>v\<close> after
    \<open>style.removeProperty('width')\<close> and \<open>style.removeProperty('height')\<close>;
  \<^item> \<open>fetch_image u\<close>: how \<open>fetch(u, ...)\<close> settles within the time limit: rejected
    (network error, abort on timeout), or a response with its \<open>ok\<close> flag, the
    blob's type and size, and the data URI \<open>FileReader\<close> produces (\<open>None\<close>: it fails);
  \<^item> \<open>canvas_image u\<close>: the data URI the canvas strategy produces, \<open>None\<close> when the
    image does not load in time or the canvas is tainted.
\<close>

section \<open>The macro passes\<close>

definition remove_selectors :: "(node \<Rightarrow> bool) list" where
  "remove_selectors = [has_class ''toc-macro'', has_class ''toc-zone'',
     attr_is ''data-macro-name'' ''toc'', has_class ''page-break'',
     has_class ''confluence-page-break'', has_class ''like-button'',
     has_class ''page-comments'', attr_is ''id'' ''comments-section'',
     attr_is ''id'' ''likes-and-labels-container'', has_class ''confluence-page-action'',
     has_class ''page-metadata-modification-info'', has_class ''wysiwyg-macro-placeholder'']"

definition remove_all :: "(node \<Rightarrow> bool) \<Rightarrow> node list \<Rightarrow> node list" where
  "remove_all P = rewrite (\<lambda>n. if P n then Some [] else None)"

definition removeUnwantedElements :: "node \<Rightarrow> node" where
  "removeUnwantedElements = on_children (fold remove_all remove_selectors)"

definition convertEmoticons :: "node \<Rightarrow> node" where
  "convertEmoticons = on_children (rewrite (\<lambda>img.
     if is_tag ''img'' img \<and> (has_class ''emoticon'' img \<or> has_attr ''data-emoji-short-name'' img)
     then Some [Text (first_truthy [getAttribute img ''data-emoji-short-name'',
                                    getAttribute img ''alt'', getAttribute img ''title''])]
     else None))"

definition convertUserMentions :: "node \<Rightarrow> node" where
  "convertUserMentions = on_children (rewrite (\<lambda>el.
     if has_class ''confluence-userlink'' el \<or> attr_is ''data-node-type'' ''mention'' el
     then Some [Text (''@'' @ trim (textContent el))]
     else None))"

definition convertJiraLinks :: "node \<Rightarrow> node" where
  "convertJiraLinks = on_children (rewrite (\<lambda>el.
     if has_class ''jira-issue-key'' el \<or> attr_is ''data-node-type'' ''inlineCard'' el
     then (let text = trim (textContent el);
               href = first_truthy [getAttribute el ''href'',
                        (case querySelector el (is_tag ''a'') of
                           Some a \<Rightarrow> getAttribute a ''href'' | None \<Rightarrow> None)]
           in if href \<noteq> [] then Some [Element ''a'' [(''href'', href)] (set_text text)] else None)
     else None))"

definition js_string :: "jsval \<Rightarrow> string" where
  \<comment> \<open>a value inside a template literal\<close>
  "js_string v = (case v of Str s \<Rightarrow> s
     | Inherited k \<Rightarrow> (if k = ''__proto__'' then ''[object Object]''
         else ''function '' @ (if k = ''constructor'' then ''Object'' else k) @ ''() { [native code] }''))"

definition js_truthy :: "jsval \<Rightarrow> bool" where
  "js_truthy v = (case v of Str s \<Rightarrow> s \<noteq> [] | Inherited k \<Rightarrow> True)"

definition code_block :: "jsval \<Rightarrow> string \<Rightarrow> node" where
  \<comment> \<open>\<open><pre><code class="language-X">text</code></pre>\<close>\<close>
  "code_block lang text = Element ''pre'' []
     [Element ''code'' (if js_truthy lang then [(''class'', ''language-'' @ js_string lang)] else [])
        (set_text text)]"

definition convertCodeBlocks :: "node \<Rightarrow> node" where
  "convertCodeBlocks c =
     on_children (rewrite (\<lambda>block.
        if attr_is ''data-node-type'' ''codeBlock'' block
        then Some [code_block (Str (or_empty (getAttribute block ''data-language''))) (textContent block)]
        else None))
     (on_children (rewrite (\<lambda>panel.
        if (has_class ''code'' panel \<and> has_class ''panel'' panel) \<or> has_class ''codeContent'' panel
           \<or> (has_class ''preformatted'' panel \<and> has_class ''panel'' panel)
        then (case querySelector panel (is_tag ''pre'') of
                None \<Rightarrow> None
              | Some pre \<Rightarrow> Some [code_block (detectCodeLanguage pre (Some panel)) (textContent pre)])
        else None)) c)"

definition panelClasses :: "(string \<times> string) list" where
  "panelClasses = [(''confluence-information-macro-information'', ''Info''),
     (''confluence-information-macro-note'', ''Note''),
     (''confluence-information-macro-warning'', ''Warning''),
     (''confluence-information-macro-tip'', ''Tip''),
     (''confluence-information-macro-success'', ''Success'')]"

definition emojis :: "(string \<times> string) list" where
  "emojis = [(''Info'', [CHR 0xE2, CHR 0x84, CHR 0xB9, CHR 0xEF, CHR 0xB8, CHR 0x8F]),
     (''Note'', [CHR 0xF0, CHR 0x9F, CHR 0x93, CHR 0x9D]),
     (''Warning'', [CHR 0xE2, CHR 0x9A, CHR 0xA0, CHR 0xEF, CHR 0xB8, CHR 0x8F]),
     (''Tip'', [CHR 0xF0, CHR 0x9F, CHR 0x92, CHR 0xA1]),
     (''Success'', [CHR 0xE2, CHR 0x9C, CHR 0x85]),
     (''Error'', [CHR 0xE2, CHR 0x9D, CHR 0x8C])]"

definition getEmojiForPanel :: "string \<Rightarrow> jsval" where
  \<comment> \<open>\<open>emojis[type] || (the Info emoji)\<close>\<close>
  "getEmojiForPanel type = (case object_get emojis type of
       Some v \<Rightarrow> (if js_truthy v then v else Str [CHR 0xE2, CHR 0x84, CHR 0xB9, CHR 0xEF, CHR 0xB8, CHR 0x8F])
     | None \<Rightarrow> Str [CHR 0xE2, CHR 0x84, CHR 0xB9, CHR 0xEF, CHR 0xB8, CHR 0x8F])"

definition panel_prefix :: "env \<Rightarrow> string \<Rightarrow> node" where
  \<comment> \<open>\<open>prefix.innerHTML = `<strong>${getEmojiForPanel(type)} ${type}:</strong>`\<close>\<close>
  "panel_prefix e type = Element ''p'' []
     (parse_html e (''<strong>'' @ js_string (getEmojiForPanel type) @ '' '' @ type @ '':</strong>''))"

definition or_self :: "node option \<Rightarrow> node \<Rightarrow> node" where
  \<comment> \<open>\<open>el.querySelector(...) || el\<close>\<close>
  "or_self x n = (case x of Some m \<Rightarrow> m | None \<Rightarrow> n)"

definition capitalize :: "string \<Rightarrow> string" where
  \<comment> \<open>\<open>type.charAt(0).toUpperCase() + type.slice(1)\<close>\<close>
  "capitalize s = toUpperCase (take 1 s) @ drop 1 s"

definition convertPanels :: "env \<Rightarrow> node \<Rightarrow> node" where
  "convertPanels e c =
     on_children (rewrite (\<lambda>panel.
        if has_class ''panel'' panel \<and> \<not> has_class ''code'' panel
        then (let header = querySelector panel (has_class ''panelHeader'');
                  body = or_self (querySelector panel (has_class ''panelContent'')) panel
              in Some [Element ''blockquote'' []
                   ((case header of
                       Some h \<Rightarrow> [Element ''p'' []
                          (parse_html e (''<strong>'' @ trim (textContent h) @ ''</strong>''))]
                     | None \<Rightarrow> []) @ childNodes body)])
        else None))
     (on_children (rewrite (\<lambda>panel.
        if has_attr ''data-panel-type'' panel
        then (let type = first_truthy [getAttribute panel ''data-panel-type'', Some ''info''];
                  label = capitalize type;
                  content = or_self (querySelector panel (has_attr ''data-panel-content'')) panel
              in Some [Element ''blockquote'' [] (panel_prefix e label # childNodes content)])
        else None))
     (on_children (rewrite (\<lambda>macro.
        if has_class ''confluence-information-macro'' macro
        then (let type = (case List.find (\<lambda>(cls, label). has_class cls macro) panelClasses of
                            Some (cls, label) \<Rightarrow> label | None \<Rightarrow> ''Note'');
                  body = or_self (querySelector macro (has_class ''confluence-information-macro-body'')) macro
              in Some [Element ''blockquote'' [] (panel_prefix e type # childNodes body)])
        else None)) c))"

definition convertExpandSections :: "node \<Rightarrow> node" where
  "convertExpandSections = on_children (rewrite (\<lambda>el.
     if has_class ''expand-container'' el \<or> attr_is ''data-node-type'' ''expand'' el
     then (let titleEl = querySelector el (\<lambda>n. has_class ''expand-control-text'' n
                                             \<or> attr_is ''data-testid'' ''expand-title'' n);
               contentEl = querySelector el (\<lambda>n. has_class ''expand-content'' n
                                             \<or> attr_is ''data-testid'' ''expand-content'' n)
           in Some [Element ''details'' []
                (Element ''summary'' []
                   (set_text (case titleEl of Some t \<Rightarrow> trim (textContent t)
                                            | None \<Rightarrow> ''Click to expand''))
                 # (case contentEl of Some c \<Rightarrow> childNodes c | None \<Rightarrow> []))])
     else None))"

definition convertStatusMacros :: "node \<Rightarrow> node" where
  "convertStatusMacros = on_children (rewrite (\<lambda>el.
     if has_class ''status-macro'' el \<or> has_class ''aui-lozenge'' el
        \<or> attr_is ''data-node-type'' ''status'' el
     then Some [Text ('' `'' @ toUpperCase (trim (textContent el)) @ ''` '')]
     else None))"

definition task_item :: "env \<Rightarrow> node \<Rightarrow> node" where
  "task_item e item =
     (let isChecked = (querySelector item (\<lambda>n. (is_tag ''input'' n \<and> has_attr ''checked'' n)
                                              \<or> has_class ''task-status-complete'' n) \<noteq> None)
                      \<or> getAttribute item ''data-task-state'' = Some ''DONE'';
          clone = on_children (remove_all (\<lambda>n. (is_tag ''input'' n \<and> attr_is ''type'' ''checkbox'' n)
                                              \<or> has_class ''task-status'' n)) item
      in Element ''li'' [(''data-task'', if isChecked then ''checked'' else ''unchecked'')]
           (parse_html e (innerHTML clone)))"

definition convertTaskLists :: "env \<Rightarrow> node \<Rightarrow> node" where
  "convertTaskLists e = on_children (rewrite (\<lambda>list.
     if has_class ''inline-task-list'' list \<or> attr_is ''data-node-type'' ''taskList'' list
     then Some [Element ''ul'' [(''data-task-list'', ''true'')]
            (map (task_item e) (querySelectorAll list (\<lambda>n. has_class ''inline-task-item'' n
                                                        \<or> attr_is ''data-node-type'' ''taskItem'' n)))]
     else None))"

section \<open>Table normalisation\<close>

subsection \<open>Rows and cells\<close>

definition is_cell :: "node \<Rightarrow> bool" where
  "is_cell n = (is_tag ''td'' n \<or> is_tag ''th'' n)"

definition cells_of :: "node \<Rightarrow> node list" where
  \<comment> \<open>\<open>row.cells\<close>: the \<open>td\<close> and \<open>th\<close> children of a row\<close>
  "cells_of row = filter is_cell (childNodes row)"

definition tr_children :: "node \<Rightarrow> node list" where
  "tr_children n = filter (is_tag ''tr'') (childNodes n)"

definition section_rows :: "string \<Rightarrow> node list \<Rightarrow> node list" where
  \<comment> \<open>the rows of the sections of one kind among the children of a table\<close>
  "section_rows s kids = concat (map tr_children (filter (is_tag s) kids))"

definition head_rows :: "node list \<Rightarrow> node list" where
  "head_rows kids = section_rows ''thead'' kids"

definition body_rows :: "node list \<Rightarrow> node list" where
  "body_rows kids = concat (map (\<lambda>k. if is_tag ''tr'' k then [k]
                                      else if is_tag ''tbody'' k then tr_children k else []) kids)"

definition foot_rows :: "node list \<Rightarrow> node list" where
  "foot_rows kids = section_rows ''tfoot'' kids"

definition table_rows :: "node \<Rightarrow> node list" where
  \<comment> \<open>\<open>table.rows\<close>: the rows of the header sections, then the rows that are children
      of the table or of a body section, then the rows of the footer sections\<close>
  "table_rows t = head_rows (childNodes t) @ body_rows (childNodes t) @ foot_rows (childNodes t)"

fun subst_trs :: "node list \<Rightarrow> node list \<Rightarrow> node list" where
  \<comment> \<open>the children of a section with its rows replaced, in order, by the given rows\<close>
  "subst_trs [] rs = []"
| "subst_trs (k # ks) rs =
     (if is_tag ''tr'' k then (case rs of [] \<Rightarrow> k # subst_trs ks [] | r # rs' \<Rightarrow> r # subst_trs ks rs')
      else k # subst_trs ks rs)"

fun subst_sections :: "string \<Rightarrow> node list \<Rightarrow> node list \<Rightarrow> node list" where
  "subst_sections s [] rs = []"
| "subst_sections s (k # ks) rs =
     (if is_tag s k
      then (let n = length (tr_children k)
            in on_children (\<lambda>cs. subst_trs cs (take n rs)) k # subst_sections s ks (drop n rs))
      else k # subst_sections s ks rs)"

fun subst_body :: "node list \<Rightarrow> node list \<Rightarrow> node list" where
  "subst_body [] rs = []"
| "subst_body (k # ks) rs =
     (if is_tag ''tr'' k then (case rs of [] \<Rightarrow> k # subst_body ks [] | r # rs' \<Rightarrow> r # subst_body ks rs')
      else if is_tag ''tbody'' k
      then (let n = length (tr_children k)
            in on_children (\<lambda>cs. subst_trs cs (take n rs)) k # subst_body ks (drop n rs))
      else k # subst_body ks rs)"

definition replace_rows :: "node \<Rightarrow> node list \<Rightarrow> node" where
  \<comment> \<open>the table with the rows \<open>table.rows[0], table.rows[1], ...\<close> replaced where they
      stand: the source edits each row in place\<close>
  "replace_rows t rs =
     on_children (\<lambda>kids.
        let nh = length (head_rows kids); nb = length (body_rows kids)
        in subst_sections ''tfoot''
             (subst_body (subst_sections ''thead'' kids (take nh rs)) (take nb (drop nh rs)))
             (drop (nh + nb) rs)) t"

subsection \<open>Step 1: span expansion\<close>

definition digit_chars :: "char list" where
  "digit_chars = ''0123456789''"

fun index_where :: "('a \<Rightarrow> bool) \<Rightarrow> 'a list \<Rightarrow> nat option" where
  "index_where P [] = None"
| "index_where P (x # xs) = (if P x then Some 0 else map_option Suc (index_where P xs))"

definition digit_value :: "char \<Rightarrow> nat" where
  "digit_value c = (case index_where (\<lambda>d. d = c) digit_chars of Some n \<Rightarrow> n | None \<Rightarrow> 0)"

definition digits_value :: "string \<Rightarrow> nat" where
  "digits_value ds = foldl (\<lambda>n c. 10 * n + digit_value c) 0 ds"

definition parseInt :: "string \<Rightarrow> int option" where
  \<comment> \<open>\<open>parseInt(s, 10)\<close>; \<open>NaN\<close> is \<open>None\<close>. Leading white space, an optional sign, then the
      longest run of digits; the value is an unbounded integer here.\<close>
  "parseInt s =
     (let s1 = dropWhile is_space s;
          neg = (take 1 s1 = ''-'');
          s2 = (if take 1 s1 = ''-'' \<or> take 1 s1 = ''+'' then drop 1 s1 else s1);
          ds = takeWhile (\<lambda>c. c \<in> set digit_chars) s2
      in if ds = [] then None
         else Some (if neg then - int (digits_value ds) else int (digits_value ds)))"

definition span_attr :: "node \<Rightarrow> string \<Rightarrow> int" where
  \<comment> \<open>\<open>parseInt(cell.getAttribute(k), 10) || 1\<close>: a missing attribute, \<open>NaN\<close> and 0 give 1\<close>
  "span_attr c k = (case getAttribute c k of None \<Rightarrow> 1
     | Some s \<Rightarrow> (case parseInt s of None \<Rightarrow> 1 | Some n \<Rightarrow> if n = 0 then 1 else n))"

definition row_width :: "node \<Rightarrow> int" where
  "row_width row = sum_list (map (\<lambda>c. span_attr c ''colspan'') (cells_of row))"

definition getMaxColumns :: "node \<Rightarrow> nat" where
  "getMaxColumns t = fold (\<lambda>row m. if row_width row > int m then nat (row_width row) else m)
                          (table_rows t) 0"

record info =
  originRow :: nat
  originCol :: nat
  isOrigin :: bool
  cell :: node

type_synonym grid = "info option list list"

definition entry_not_null :: "info option list \<Rightarrow> int \<Rightarrow> bool" where
  \<comment> \<open>\<open>grid[r][i] !== null\<close>: an index outside the array reads \<open>undefined\<close>\<close>
  "entry_not_null row i = (if 0 \<le> i \<and> nat i < length row then row ! nat i \<noteq> None else True)"

function skip_filled :: "info option list \<Rightarrow> nat \<Rightarrow> int \<Rightarrow> int" where
  \<comment> \<open>\<open>while (cellIdx < maxCols && grid[r][cellIdx] !== null) cellIdx++\<close>\<close>
  "skip_filled row maxCols i =
     (if i < int maxCols \<and> entry_not_null row i then skip_filled row maxCols (i + 1) else i)"
  by pat_completeness auto
termination
  by (relation "measure (\<lambda>(row, maxCols, i). nat (int maxCols - i))") auto

declare skip_filled.simps [simp del]

definition strip_spans :: "node \<Rightarrow> node" where
  \<comment> \<open>\<open>cell.removeAttribute('colspan'); cell.removeAttribute('rowspan')\<close>\<close>
  "strip_spans c = removeAttribute (removeAttribute c ''colspan'') ''rowspan''"

definition put :: "nat \<Rightarrow> nat \<Rightarrow> nat \<Rightarrow> nat \<Rightarrow> info \<Rightarrow> grid \<Rightarrow> grid" where
  \<comment> \<open>\<open>if (gr < rows.length && gc < maxCols) grid[gr][gc] = v\<close>\<close>
  "put nrows maxCols gr gc v g =
     (if gr < nrows \<and> gc < maxCols then g[gr := (g ! gr)[gc := Some v]] else g)"

definition mark_span :: "nat \<Rightarrow> nat \<Rightarrow> nat \<Rightarrow> nat \<Rightarrow> int \<Rightarrow> int \<Rightarrow> node \<Rightarrow> grid \<Rightarrow> grid" where
  \<comment> \<open>the two \<open>for\<close> loops over \<open>dr\<close> and \<open>dc\<close>. The grid holds the cell by reference; the
      rebuild reads it after its span attributes are gone, so the entry holds it so.\<close>
  "mark_span nrows maxCols r c rowspan colspan cl g =
     fold (\<lambda>dr. fold (\<lambda>dc. put nrows maxCols (r + dr) (c + dc)
                          \<lparr>originRow = r, originCol = c, isOrigin = (dr = 0 \<and> dc = 0), cell = cl\<rparr>)
                    [0..<nat colspan])
          [0..<nat rowspan] g"

fun place_cells :: "nat \<Rightarrow> nat \<Rightarrow> nat \<Rightarrow> node list \<Rightarrow> int \<Rightarrow> grid \<Rightarrow> grid" where
  \<comment> \<open>the loop over the cells of row \<open>r\<close>, with the running \<open>cellIdx\<close>\<close>
  "place_cells nrows maxCols r [] cellIdx g = g"
| "place_cells nrows maxCols r (c # cs) cellIdx g =
     (let i = skip_filled (g ! r) maxCols cellIdx
      in if i \<ge> int maxCols then g
         else place_cells nrows maxCols r cs (i + span_attr c ''colspan'')
                (mark_span nrows maxCols r (nat i) (span_attr c ''rowspan'')
                   (span_attr c ''colspan'') (strip_spans c) g))"

fun build_rows :: "nat \<Rightarrow> nat \<Rightarrow> nat \<Rightarrow> node list \<Rightarrow> grid \<Rightarrow> grid" where
  "build_rows nrows maxCols r [] g = g"
| "build_rows nrows maxCols r (row # rows) g =
     build_rows nrows maxCols (Suc r) rows (place_cells nrows maxCols r (cells_of row) 0 g)"

definition build_grid :: "node \<Rightarrow> grid" where
  "build_grid t =
     (let rows = table_rows t; m = getMaxColumns t
      in build_rows (length rows) m 0 rows (replicate (length rows) (replicate m None)))"

definition rebuild_cell :: "info option \<Rightarrow> node" where
  \<comment> \<open>an origin is the cell itself; a dependent is \<open>cloneNode(false)\<close> of the cell, emptied;
      an unassigned position is a new \<open>td\<close>\<close>
  "rebuild_cell x = (case x of
       Some i \<Rightarrow> (if isOrigin i then cell i else Element (tag_of (cell i)) (attrs_of (cell i)) [])
     | None \<Rightarrow> Element ''td'' [] [])"

definition rebuild_row :: "node \<Rightarrow> info option list \<Rightarrow> node" where
  \<comment> \<open>\<open>deleteCell\<close> until no cell is left, then one \<open>appendChild\<close> per column\<close>
  "rebuild_row row infos =
     on_children (\<lambda>cs. filter (\<lambda>n. \<not> is_cell n) cs @ map rebuild_cell infos) row"

definition rebuild_rows :: "node \<Rightarrow> node" where
  \<comment> \<open>the second loop: every row rebuilt from its row of the grid\<close>
  "rebuild_rows t = replace_rows t (map2 rebuild_row (table_rows t) (build_grid t))"

definition range_message :: string where
  \<comment> \<open>the message of the \<open>RangeError\<close> of \<open>new Array(n)\<close> for a length \<open>n\<close> of \<open>2^32\<close> or more\<close>
  "range_message = ''Invalid array length''"

definition expandMergedCells :: "node \<Rightarrow> error + node" where
  \<comment> \<open>\<open>new Array(maxCols)\<close> throws for the first row, before anything is changed, when
      \<open>maxCols\<close> is no array length. The numbers of this step are the doubles of the source
      as long as those are exact, which \<open>spans_exact\<close> below secures; beyond that the source
      rounds, and its counting loops do not end for a span above \<open>2^53\<close>.\<close>
  "expandMergedCells t =
     (if table_rows t = [] then Inr t
      else if 2 ^ 32 \<le> int (getMaxColumns t) then Inl (Error range_message)
      else Inr (rebuild_rows t))"

definition spans_exact :: "node \<Rightarrow> bool" where
  \<comment> \<open>the table has fewer than \<open>2^32\<close> rows, every row fewer than \<open>2^20\<close> cells, and every
      \<open>colspan\<close> and \<open>rowspan\<close> is below \<open>2^32\<close> in size: then every number the step computes is
      below \<open>2^53\<close> in size, where the doubles are exact\<close>
  "spans_exact t =
     (int (length (table_rows t)) < 2 ^ 32
      \<and> list_all (\<lambda>row. int (length (cells_of row)) < 2 ^ 20
             \<and> list_all (\<lambda>c. \<bar>span_attr c ''colspan''\<bar> < 2 ^ 32 \<and> \<bar>span_attr c ''rowspan''\<bar> < 2 ^ 32)
                         (cells_of row))
           (table_rows t))"

subsection \<open>The layout of the grid\<close>

text \<open>
  What the first loop leaves in the grid, said without the grid: the cells are placed in
  the order of the source, each at the next column of its row that no span placed before
  has reached, and a position holds the last placed span that reaches it.
\<close>

type_synonym placement = "nat \<times> nat \<times> node"  \<comment> \<open>row, column, the cell of the source row\<close>

definition reaches :: "placement \<Rightarrow> nat \<Rightarrow> nat \<Rightarrow> bool" where
  \<comment> \<open>the position lies in the rectangle that the loops over \<open>dr\<close> and \<open>dc\<close> run through\<close>
  "reaches p r c = (case p of (r0, c0, cl) \<Rightarrow>
       r0 \<le> r \<and> int r < int r0 + span_attr cl ''rowspan''
     \<and> c0 \<le> c \<and> int c < int c0 + span_attr cl ''colspan'')"

definition writer :: "placement list \<Rightarrow> nat \<Rightarrow> nat \<Rightarrow> placement option" where
  \<comment> \<open>the last of the placements that reaches the position\<close>
  "writer ps r c = List.find (\<lambda>p. reaches p r c) (rev ps)"

function next_free :: "placement list \<Rightarrow> nat \<Rightarrow> nat \<Rightarrow> int \<Rightarrow> int" where
  \<comment> \<open>the column the \<open>while\<close> loop stops at: the first from \<open>i\<close> on that is at or beyond
      \<open>maxCols\<close> or a column of the row that no placement has reached\<close>
  "next_free ps r maxCols i =
     (if i < int maxCols \<and> (i < 0 \<or> writer ps r (nat i) \<noteq> None)
      then next_free ps r maxCols (i + 1) else i)"
  by pat_completeness auto
termination
  by (relation "measure (\<lambda>(ps, r, maxCols, i). nat (int maxCols - i))") auto

declare next_free.simps [simp del]

fun place_row :: "nat \<Rightarrow> nat \<Rightarrow> node list \<Rightarrow> int \<Rightarrow> placement list \<Rightarrow> placement list" where
  "place_row maxCols r [] i ps = ps"
| "place_row maxCols r (c # cs) i ps =
     (let j = next_free ps r maxCols i
      in if j \<ge> int maxCols then ps
         else place_row maxCols r cs (j + span_attr c ''colspan'') (ps @ [(r, nat j, c)]))"

fun place_rows :: "nat \<Rightarrow> nat \<Rightarrow> node list \<Rightarrow> placement list \<Rightarrow> placement list" where
  "place_rows maxCols r [] ps = ps"
| "place_rows maxCols r (row # rows) ps =
     place_rows maxCols (Suc r) rows (place_row maxCols r (cells_of row) 0 ps)"

definition placements :: "node \<Rightarrow> placement list" where
  "placements t = place_rows (getMaxColumns t) 0 (table_rows t) []"

definition expanded_cell :: "placement list \<Rightarrow> nat \<Rightarrow> nat \<Rightarrow> node" where
  \<comment> \<open>the cell of a position: the placed cell itself, without its span attributes, where
      it was placed; an empty copy of it elsewhere in its span; an empty \<open>td\<close> where no
      span reaches\<close>
  "expanded_cell ps r c = (case writer ps r c of
       None \<Rightarrow> Element ''td'' [] []
     | Some (r0, c0, cl) \<Rightarrow>
         if r = r0 \<and> c = c0 then strip_spans cl
         else Element (tag_of cl) (attrs_of (strip_spans cl)) [])"

subsection \<open>Step 2: header promotion\<close>

fun str_includes :: "string \<Rightarrow> string \<Rightarrow> bool" where
  \<comment> \<open>\<open>s.str_includes(p)\<close>\<close>
  "str_includes [] p = (p = [])"
| "str_includes (c # cs) p = (startsWith (c # cs) p \<or> str_includes cs p)"

definition header_class :: "string \<Rightarrow> bool" where
  \<comment> \<open>\<open>/confluenceTh|highlight-grey|highlight/i.test(cls)\<close>: the pattern is ASCII, so the
      test ignores case exactly on the ASCII letters\<close>
  "header_class cls = (str_includes (toLowerCase cls) ''confluenceth''
     \<or> str_includes (toLowerCase cls) ''highlight-grey'' \<or> str_includes (toLowerCase cls) ''highlight'')"

definition header_colours :: "string list" where
  "header_colours = [''f0f0f0'', ''e0e0e0'', ''dfe1e5'', ''f4f5f7'', ''deebff'']"

definition header_style_at :: "string \<Rightarrow> unit option" where
  \<comment> \<open>\<open>/background-color\s*:\s*#(?:f0f0f0|e0e0e0|dfe1e5|f4f5f7|deebff)/\<close>, anchored, on the
      lower-cased string\<close>
  "header_style_at s =
     (if startsWith s ''background-color''
      then (let s1 = dropWhile is_space (drop 16 s)
            in if startsWith s1 '':''
               then (let s2 = dropWhile is_space (drop 1 s1)
                     in if startsWith s2 ''#'' \<and> list_ex (startsWith (drop 1 s2)) header_colours
                        then Some () else None)
               else None)
      else None)"

definition isHeaderCell :: "node \<Rightarrow> bool" where
  "isHeaderCell td =
     (is_tag ''th'' td
      \<or> header_class (className td)
      \<or> hasAttribute td ''data-highlight-colour''
      \<or> regex_search header_style_at (toLowerCase (or_empty (getAttribute td ''style''))) \<noteq> None
      \<or> (case filter (\<lambda>n. \<not> (\<not> is_element n \<and> trim (textContent n) = [])) (childNodes td) of
            [c] \<Rightarrow> is_tag ''b'' c \<or> is_tag ''strong'' c
          | _ \<Rightarrow> False))"

definition retag_th :: "env \<Rightarrow> node \<Rightarrow> node" where
  \<comment> \<open>\<open>th = createElement('th'); th.innerHTML = td.innerHTML;\<close> every attribute copied with
      \<open>setAttribute\<close>; \<open>td.replaceWith(th)\<close>\<close>
  "retag_th e td = Element ''th'' (fold (\<lambda>(k, v) a. set_attr a k v) (attrs_of td) [])
                     (parse_html e (innerHTML td))"

definition promoteHeaderCells :: "env \<Rightarrow> node \<Rightarrow> node" where
  "promoteHeaderCells e t =
     (case table_rows t of
        [] \<Rightarrow> t
      | firstRow # later \<Rightarrow>
         (let firstRowCells = cells_of firstRow;
              allHeaders = (length firstRowCells > 0 \<and> list_all isHeaderCell firstRowCells);
              firstRow' = (if allHeaders
                 then on_children (map (\<lambda>td. if is_cell td \<and> \<not> is_tag ''th'' td
                                               then retag_th e td else td)) firstRow
                 else firstRow);
              later' = map (on_children (map (\<lambda>c.
                          if is_tag ''td'' c \<and> str_includes (toLowerCase (className c)) ''confluenceth''
                          then retag_th e c else c))) later
          in replace_rows t (firstRow' # later')))"

subsection \<open>Paths into the tree\<close>

type_synonym path = "nat list"

fun get_at :: "node list \<Rightarrow> path \<Rightarrow> node option" where
  "get_at ns [] = None"
| "get_at ns [i] = (if i < length ns then Some (ns ! i) else None)"
| "get_at ns (i # j # p) = (if i < length ns then get_at (childNodes (ns ! i)) (j # p) else None)"

fun update_at :: "path \<Rightarrow> (node \<Rightarrow> node) \<Rightarrow> node list \<Rightarrow> node list" where
  "update_at [] f ns = ns"
| "update_at [i] f ns = (if i < length ns then ns[i := f (ns ! i)] else ns)"
| "update_at (i # j # p) f ns =
     (if i < length ns then ns[i := on_children (update_at (j # p) f) (ns ! i)] else ns)"

fun remove_at :: "path \<Rightarrow> node list \<Rightarrow> node list" where
  "remove_at [] ns = ns"
| "remove_at [i] ns = take i ns @ drop (Suc i) ns"
| "remove_at (i # j # p) ns =
     (if i < length ns then ns[i := on_children (remove_at (j # p)) (ns ! i)] else ns)"

fun find_path_from :: "(node \<Rightarrow> bool) \<Rightarrow> nat \<Rightarrow> node list \<Rightarrow> path option" where
  \<comment> \<open>where \<open>querySelector\<close> finds its element: the path of the first match in document
      order, the siblings numbered from \<open>i\<close>\<close>
  "find_path_from P i [] = None"
| "find_path_from P i (Text s # ns) = find_path_from P (Suc i) ns"
| "find_path_from P i (Element t a cs # ns) =
     (if P (Element t a cs) then Some [i]
      else (case find_path_from P 0 cs of
              Some p \<Rightarrow> Some (i # p)
            | None \<Rightarrow> find_path_from P (Suc i) ns))"

fun after_removal :: "path \<Rightarrow> path \<Rightarrow> path" where
  \<comment> \<open>\<open>after_removal p q\<close>: where the node at \<open>q\<close> stands once the node at \<open>p\<close> is removed\<close>
  "after_removal [i] (j # q) = (if i < j then (j - 1) # q else j # q)"
| "after_removal (i # p) (j # q) = (if i = j then j # after_removal p q else j # q)"
| "after_removal p q = q"

fun is_prefix :: "path \<Rightarrow> path \<Rightarrow> bool" where
  "is_prefix [] q = True"
| "is_prefix (i # p) [] = False"
| "is_prefix (i # p) (j # q) = (i = j \<and> is_prefix p q)"

definition first_tr :: "node \<Rightarrow> nat option" where
  "first_tr k = index_where (is_tag ''tr'') (childNodes k)"

definition section_row_path :: "string \<Rightarrow> node list \<Rightarrow> path option" where
  "section_row_path s kids =
     (case index_where (\<lambda>k. is_tag s k \<and> first_tr k \<noteq> None) kids of
        None \<Rightarrow> None
      | Some i \<Rightarrow> (case first_tr (kids ! i) of Some j \<Rightarrow> Some [i, j] | None \<Rightarrow> None))"

definition body_row_path :: "node list \<Rightarrow> path option" where
  "body_row_path kids =
     (case index_where (\<lambda>k. is_tag ''tr'' k \<or> (is_tag ''tbody'' k \<and> first_tr k \<noteq> None)) kids of
        None \<Rightarrow> None
      | Some i \<Rightarrow> (if is_tag ''tr'' (kids ! i) then Some [i]
                   else (case first_tr (kids ! i) of Some j \<Rightarrow> Some [i, j] | None \<Rightarrow> None)))"

definition first_row_path :: "node list \<Rightarrow> path option" where
  \<comment> \<open>where \<open>table.rows[0]\<close> stands among the children of the table\<close>
  "first_row_path kids =
     (case section_row_path ''thead'' kids of
        Some p \<Rightarrow> Some p
      | None \<Rightarrow> (case body_row_path kids of
                   Some p \<Rightarrow> Some p
                 | None \<Rightarrow> section_row_path ''tfoot'' kids))"

definition append_child :: "node \<Rightarrow> node \<Rightarrow> node" where
  "append_child c = on_children (\<lambda>cs. cs @ [c])"

definition with_thead :: "node list \<Rightarrow> path \<Rightarrow> node list \<times> path \<times> path" where
  \<comment> \<open>\<open>let thead = table.querySelector('thead'); if (!thead) { thead = createElement('thead');
      table.insertBefore(thead, table.firstChild); }\<close>: the children of the table, the
      path of the first row, and the path of \<open>thead\<close>\<close>
  "with_thead kids p =
     (case find_path_from (is_tag ''thead'') 0 kids of
        Some q \<Rightarrow> (kids, p, q)
      | None \<Rightarrow> (Element ''thead'' [] [] # kids, (case p of i # p' \<Rightarrow> Suc i # p' | [] \<Rightarrow> []), [0]))"

subsection \<open>Step 3: sectioning\<close>

definition hierarchy_message :: string where
  \<comment> \<open>the message of the \<open>HierarchyRequestError\<close> that \<open>appendChild\<close> throws when the node to
      insert is an ancestor of the new parent (as Chrome words it)\<close>
  "hierarchy_message =
     ''Failed to execute 'appendChild' on 'Node': The new child element contains the parent.''"

definition ensureThead :: "node \<Rightarrow> error + node" where
  "ensureThead t =
     (case first_row_path (childNodes t) of
        None \<Rightarrow> Inr t
      | Some p \<Rightarrow>
         (case get_at (childNodes t) p of
            None \<Rightarrow> Inr t
          | Some firstRow \<Rightarrow>
             if length p = 2 \<and> is_tag ''thead'' (childNodes t ! hd p) then Inr t
             else if \<not> list_all (is_tag ''th'') (cells_of firstRow) then Inr t
             else (case with_thead (childNodes t) p of (kids1, p1, q1) \<Rightarrow>
                if is_prefix p1 q1 then Inl (Error hierarchy_message)
                else (let kids2 = update_at (after_removal p1 q1) (append_child firstRow)
                                    (remove_at p1 kids1);
                          kids3 = (case find_path_from (is_tag ''tbody'') 0 kids2 of
                                     Some q \<Rightarrow> kids2
                                   | None \<Rightarrow> filter (\<lambda>k. \<not> is_tag ''tr'' k) kids2
                                             @ [Element ''tbody'' [] (filter (is_tag ''tr'') kids2)])
                      in Inr (on_children (\<lambda>kids. kids3) t)))))"

subsection \<open>Step 4: header synthesis\<close>

definition digit_of :: "nat \<Rightarrow> char" where
  "digit_of n = digit_chars ! n"

function nat_string :: "nat \<Rightarrow> string" where
  \<comment> \<open>a number inside a template literal\<close>
  "nat_string n = (if n < 10 then [digit_of n] else nat_string (n div 10) @ [digit_of (n mod 10)])"
  by pat_completeness auto
termination
  by (relation "measure (\<lambda>n. n)") auto

declare nat_string.simps [simp del]

definition looksLikeHeader :: "node \<Rightarrow> bool" where
  "looksLikeHeader c =
     (let text = trim (textContent c)
      in length text > 0 \<and> length text < 50
         \<and> querySelector c (\<lambda>n. is_tag ''img'' n \<or> is_tag ''pre'' n \<or> is_tag ''code'' n
                                \<or> is_tag ''table'' n) = None)"

definition header_label :: "nat \<Rightarrow> node \<Rightarrow> string" where
  \<comment> \<open>the text of the synthetic header cell of column \<open>i\<close> (counted from 0)\<close>
  "header_label i c = (if looksLikeHeader c then trim (textContent c)
                       else ''Column '' @ nat_string (i + 1))"

definition synthetic_header :: "node list \<Rightarrow> node" where
  "synthetic_header cells =
     Element ''tr'' [] (map (\<lambda>(i, c). Element ''th'' [] (set_text (header_label i c)))
                            (zip [0..<length cells] cells))"

definition ensureHeaderRow :: "node \<Rightarrow> node" where
  "ensureHeaderRow t =
     (case first_row_path (childNodes t) of
        None \<Rightarrow> t
      | Some p \<Rightarrow>
         (case get_at (childNodes t) p of
            None \<Rightarrow> t
          | Some firstRow \<Rightarrow>
             if list_ex (is_tag ''th'') (cells_of firstRow) then t
             else if length (cells_of firstRow) = 0 then t
             else (case with_thead (childNodes t) p of (kids1, p1, q1) \<Rightarrow>
                (let kids2 = update_at q1 (append_child (synthetic_header (cells_of firstRow))) kids1;
                     kids3 = (if list_all looksLikeHeader (cells_of firstRow)
                              then remove_at p1 kids2 else kids2)
                 in on_children (\<lambda>kids. kids3) t))))"

subsection \<open>Step 5: cell linearisation\<close>

fun weight :: "node list \<Rightarrow> nat" where
  "weight [] = 0"
| "weight (Text s # ns) = Suc (weight ns)"
| "weight (Element t a cs # ns) = (if t = ''p'' \<or> t = ''div'' then 3 else 1) + weight cs + weight ns"

lemma weight_append: "weight (xs @ ys) = weight xs + weight ys"
  by (induction xs rule: weight.induct) auto

function unwrap_blocks :: "bool \<Rightarrow> nat \<Rightarrow> node list \<Rightarrow> node list" where
  \<comment> \<open>\<open>cell.querySelectorAll('p, div').forEach(...)\<close> on the children of one element. A
      block is replaced by its children, which are the next in the list and now stand
      where it stood. \<open>direct\<close>: the element is the cell itself (\<open>block.parentNode === cell\<close>);
      \<open>k\<close>: the element children before this point, which with those from here on make
      up \<open>cell.children.length\<close>.\<close>
  "unwrap_blocks direct k [] = []"
| "unwrap_blocks direct k (Text s # ns) = Text s # unwrap_blocks direct k ns"
| "unwrap_blocks direct k (Element t a cs # ns) =
     (if t = ''p'' \<or> t = ''div''
      then (if direct \<and> k + Suc (length (filter is_element ns)) = 1
            then unwrap_blocks direct k (cs @ ns)
            else unwrap_blocks direct k (cs @ Element ''br'' [] [] # ns))
      else Element t a (unwrap_blocks False 0 cs) # unwrap_blocks direct (Suc k) ns)"
  by pat_completeness auto
termination
  by (relation "measure (\<lambda>(direct, k, ns). weight ns)") (auto simp: weight_append)

fun collapse_from :: "bool \<Rightarrow> string \<Rightarrow> string" where
  \<comment> \<open>\<open>.replace(/\s+/g, ' ')\<close>; the flag: the character before was white space\<close>
  "collapse_from b [] = []"
| "collapse_from b (c # cs) =
     (if is_space c then (if b then collapse_from True cs else CHR '' '' # collapse_from True cs)
      else c # collapse_from False cs)"

definition collapse_spaces :: "string \<Rightarrow> string" where
  "collapse_spaces s = collapse_from False s"

definition clean_text :: "string \<Rightarrow> string" where
  \<comment> \<open>\<open>s.replace(/\n/g, ' ').replace(/\s+/g, ' ')\<close>\<close>
  "clean_text s = collapse_spaces (map (\<lambda>c. if c = CHR 0x0A then CHR '' '' else c) s)"

definition clean_attrs :: "env \<Rightarrow> attrs \<Rightarrow> attrs" where
  \<comment> \<open>\<open>removeAttribute('width'); removeAttribute('height'); style.removeProperty('width');
      style.removeProperty('height')\<close>; without a \<open>style\<close> attribute the last two do nothing\<close>
  "clean_attrs e a =
     map (\<lambda>(k, v). if k = ''style'' then (k, strip_size_style e v) else (k, v))
         (filter (\<lambda>(k, v). k \<noteq> ''width'' \<and> k \<noteq> ''height'') a)"

fun unwrap_cells :: "node list \<Rightarrow> node list" where
  \<comment> \<open>the block loop of every cell. The blocks inside a cell nested in another cell are
      unwrapped when the outer cell is visited, with the outer cell as \<open>cell\<close>; when the
      inner cell is visited none is left.\<close>
  "unwrap_cells [] = []"
| "unwrap_cells (Text s # ns) = Text s # unwrap_cells ns"
| "unwrap_cells (Element t a cs # ns) =
     (if t = ''td'' \<or> t = ''th'' then Element t a (unwrap_blocks True 0 cs) # unwrap_cells ns
      else Element t a (unwrap_cells cs) # unwrap_cells ns)"

fun tidy_cells :: "env \<Rightarrow> bool \<Rightarrow> node list \<Rightarrow> node list" where
  \<comment> \<open>the text loop and the attribute removal of every cell; the flag: the nodes are the
      children of a cell\<close>
  "tidy_cells e c [] = []"
| "tidy_cells e c (Text s # ns) = Text (if c then clean_text s else s) # tidy_cells e c ns"
| "tidy_cells e c (Element t a cs # ns) =
     (if t = ''td'' \<or> t = ''th'' then Element t (clean_attrs e a) (tidy_cells e True cs)
      else Element t a (tidy_cells e False cs))
     # tidy_cells e c ns"

definition cleanCellContent :: "env \<Rightarrow> node \<Rightarrow> node" where
  \<comment> \<open>The source visits the cells in document order and runs the three loops on each.
      The block loop of a cell changes only that cell's subtree, the other two only its
      own text children and attributes, so all block loops first is the same.\<close>
  "cleanCellContent e = on_children (\<lambda>kids. tidy_cells e False (unwrap_cells kids))"

definition normalizeTable :: "env \<Rightarrow> node \<Rightarrow> error + node" where
  "normalizeTable e t =
     (case expandMergedCells t of
        Inl err \<Rightarrow> Inl err
      | Inr t1 \<Rightarrow>
         (case ensureThead (promoteHeaderCells e t1) of
            Inl err \<Rightarrow> Inl err
          | Inr t3 \<Rightarrow> Inr (cleanCellContent e (ensureHeaderRow t3))))"

subsection \<open>All tables of the container\<close>

lemma first_desc_size: "first_desc P ns = Some n \<Longrightarrow> size n < Suc (size_list size ns)"
  by (induction P ns rule: first_desc.induct) (auto split: if_splits option.splits)

definition is_wrapper :: "node \<Rightarrow> bool" where
  \<comment> \<open>\<open>.table-wrap, .tablesorter-header-inner, div.scroll-wrapper\<close>\<close>
  "is_wrapper n = (has_class ''table-wrap'' n \<or> has_class ''tablesorter-header-inner'' n
                   \<or> (is_tag ''div'' n \<and> has_class ''scroll-wrapper'' n))"

function unwrap_tables :: "node list \<Rightarrow> node list" where
  \<comment> \<open>\<open>wrapper.replaceWith(table)\<close> moves the table itself, so the wrappers inside it are
      still in the tree when their turn comes\<close>
  "unwrap_tables [] = []"
| "unwrap_tables (Text s # ns) = Text s # unwrap_tables ns"
| "unwrap_tables (Element t a cs # ns) =
     (if is_wrapper (Element t a cs)
      then (case first_desc (is_tag ''table'') cs of
              Some tbl \<Rightarrow> unwrap_tables [tbl] @ unwrap_tables ns
            | None \<Rightarrow> Element t a (unwrap_tables cs) # unwrap_tables ns)
      else Element t a (unwrap_tables cs) # unwrap_tables ns)"
  by pat_completeness auto
termination
  by (relation "measure (size_list size)") (auto dest: first_desc_size)

fun normalize_tables :: "env \<Rightarrow> nat \<Rightarrow> node list \<Rightarrow> error + node list" where
  \<comment> \<open>\<open>container.querySelectorAll('table').forEach(normalizeTable)\<close>: an outer table
      before the tables inside it. The first argument of the recursion bounds the depth
      of nesting.\<close>
  "normalize_tables e d [] = Inr []"
| "normalize_tables e d (Text s # ns) =
     (case normalize_tables e d ns of Inl err \<Rightarrow> Inl err | Inr ns' \<Rightarrow> Inr (Text s # ns'))"
| "normalize_tables e 0 (Element t a cs # ns) = Inr (Element t a cs # ns)"
| "normalize_tables e (Suc d) (Element t a cs # ns) =
     (if t = ''table''
      then (case normalizeTable e (Element t a cs) of
              Inl err \<Rightarrow> Inl err
            | Inr t' \<Rightarrow>
               (case normalize_tables e d (childNodes t') of
                  Inl err \<Rightarrow> Inl err
                | Inr cs' \<Rightarrow>
                   (case normalize_tables e (Suc d) ns of
                      Inl err \<Rightarrow> Inl err
                    | Inr ns' \<Rightarrow> Inr (on_children (\<lambda>x. cs') t' # ns'))))
      else (case normalize_tables e (Suc d) cs of
              Inl err \<Rightarrow> Inl err
            | Inr cs' \<Rightarrow>
               (case normalize_tables e (Suc d) ns of
                  Inl err \<Rightarrow> Inl err
                | Inr ns' \<Rightarrow> Inr (Element t a cs' # ns'))))"

definition normalizeConfluenceTables :: "env \<Rightarrow> node \<Rightarrow> error + node" where
  "normalizeConfluenceTables e c =
     (let kids = unwrap_tables (childNodes c)
      in case normalize_tables e (Suc (length (all_desc (is_tag ''table'') kids))) kids of
           Inl err \<Rightarrow> Inl err
         | Inr kids' \<Rightarrow> Inr (on_children (\<lambda>x. kids') c))"

section \<open>Images\<close>

definition placeholder_free :: "string \<Rightarrow> bool" where
  "placeholder_free u = (\<not> str_includes u ''placeholder'')"

fun best_candidate :: "env \<Rightarrow> string list \<Rightarrow> string option" where
  \<comment> \<open>the loop over the candidates of \<open>resolveBestImageUrl\<close>; \<open>None\<close>: it falls through\<close>
  "best_candidate e [] = None"
| "best_candidate e (u # us) =
     (if startsWith u ''data:'' then Some u
      else if startsWith u ''blob:'' then best_candidate e us
      else if \<not> placeholder_free u then best_candidate e us
      else if \<not> startsWith u ''http''
           then (case resolve_url e u of Some h \<Rightarrow> Some h | None \<Rightarrow> best_candidate e us)
      else Some u)"

definition resolveBestImageUrl :: "env \<Rightarrow> node \<Rightarrow> string" where
  "resolveBestImageUrl e img =
     (case best_candidate e (filter (\<lambda>u. u \<noteq> [])
             (map (\<lambda>k. or_empty (getAttribute img k))
                  [''data-image-src'', ''data-media-src'', ''data-src'', ''src''])) of
        Some u \<Rightarrow> u
      | None \<Rightarrow>
         (let resourceId = first_truthy [getAttribute img ''data-linked-resource-id'',
                             getAttribute img ''data-media-id'', getAttribute img ''data-resource-id''];
              baseUrl = first_truthy [getAttribute img ''data-base-url'', Some (origin e)]
          in if resourceId \<noteq> [] then baseUrl @ ''/download/attachments/'' @ resourceId
             else or_empty (getAttribute img ''src'')))"

definition image_noise_attrs :: "string list" where
  "image_noise_attrs = [''data-media-id'', ''data-media-type'', ''data-base-url'',
     ''data-linked-resource-id'', ''data-linked-resource-type'', ''data-linked-resource-version'',
     ''data-linked-resource-default-alias'', ''data-resource-id'', ''data-resource-type'',
     ''loading'', ''data-unresolved-comment-count'', ''data-location'', ''data-image-src'',
     ''data-width'', ''data-height'']"

definition cleanupImage :: "env \<Rightarrow> node \<Rightarrow> node" where
  "cleanupImage e img =
     (let bestSrc = resolveBestImageUrl e img;
          img1 = (if bestSrc \<noteq> [] then setAttribute img ''src'' bestSrc else img);
          img2 = (if or_empty (getAttribute img1 ''alt'') = []
                  then setAttribute img1 ''alt''
                         (first_truthy [getAttribute img1 ''title'', getAttribute img1 ''data-alt'',
                                        Some ''image''])
                  else img1)
      in fold (\<lambda>k n. removeAttribute n k) image_noise_attrs img2)"

fun map_images :: "(node \<Rightarrow> node) \<Rightarrow> node list \<Rightarrow> node list" where
  \<comment> \<open>\<open>container.querySelectorAll('img').forEach(f)\<close> for an \<open>f\<close> that edits attributes only\<close>
  "map_images f [] = []"
| "map_images f (Text s # ns) = Text s # map_images f ns"
| "map_images f (Element t a cs # ns) =
     Element t (if t = ''img'' then attrs_of (f (Element t a cs)) else a) (map_images f cs)
     # map_images f ns"

definition cleanupImages :: "env \<Rightarrow> node \<Rightarrow> node" where
  "cleanupImages e = on_children (map_images (cleanupImage e))"

definition fetchImageAsDataUri :: "env \<Rightarrow> string \<Rightarrow> error + string option" where
  \<comment> \<open>\<open>Inr None\<close> is the \<open>null\<close> of an image over 5 MB; \<open>Inl\<close> is the rethrown error of the
      first strategy, after the canvas strategy has failed as well\<close>
  "fetchImageAsDataUri e url =
     (let canvas = (\<lambda>fetchErr. case canvas_image e url of
                                  Some uri \<Rightarrow> Inr (Some uri) | None \<Rightarrow> Inl fetchErr)
      in case fetch_image e url of
           FetchRejected \<Rightarrow> canvas (Error ''fetch failed'')
         | FetchResponse ok btype bsize uri \<Rightarrow>
            if \<not> ok then canvas (Error ''HTTP status'')
            else if \<not> startsWith btype ''image/'' then canvas (Error (''Not an image: '' @ btype))
            else if bsize > 5 * 1024 * 1024 then Inr None
            else (case uri of Some u \<Rightarrow> Inr (Some u) | None \<Rightarrow> canvas (Error ''FileReader failed'')))"

definition fetchAndEmbedImage :: "env \<Rightarrow> node \<Rightarrow> node" where
  \<comment> \<open>the \<open>try\<close> block swallows the error: the function has no failing result\<close>
  "fetchAndEmbedImage e img =
     (let src = or_empty (getAttribute img ''src'')
      in if startsWith src ''data:'' then img
         else if src = [] \<or> src = ''about:blank'' then img
         else (case fetchImageAsDataUri e src of
                 Inr (Some dataUri) \<Rightarrow> (if dataUri \<noteq> [] then setAttribute img ''src'' dataUri else img)
               | Inr None \<Rightarrow> img
               | Inl err \<Rightarrow> img))"

definition embedImagesAsBase64 :: "env \<Rightarrow> node \<Rightarrow> node" where
  \<comment> \<open>batches of four under \<open>Promise.allSettled\<close>: every image is tried, each writes its
      own \<open>src\<close> only, and no rejection leaves the function\<close>
  "embedImagesAsBase64 e = on_children (map_images (fetchAndEmbedImage e))"

definition fetch_fails :: "env \<Rightarrow> string \<Rightarrow> bool" where
  \<comment> \<open>the first strategy throws: the request is rejected or times out, the status is not
      \<open>ok\<close>, the blob is not an image, or \<open>FileReader\<close> fails (an image over 5 MB is no
      failure: the function returns \<open>null\<close> there and the canvas is not tried)\<close>
  "fetch_fails e url = (case fetch_image e url of
       FetchRejected \<Rightarrow> True
     | FetchResponse ok btype bsize uri \<Rightarrow>
         \<not> ok \<or> \<not> startsWith btype ''image/'' \<or> (bsize \<le> 5 * 1024 * 1024 \<and> uri = None))"

definition is_embedded :: "node \<Rightarrow> bool" where
  \<comment> \<open>an image is embedded when its \<open>src\<close> is a data URI; the source keeps no other mark\<close>
  "is_embedded img = startsWith (or_empty (getAttribute img ''src'')) ''data:''"

section \<open>The pipeline\<close>

definition preprocessContent :: "env \<Rightarrow> node \<Rightarrow> error + node" where
  "preprocessContent e c =
     (case normalizeConfluenceTables e
             (convertTaskLists e (convertStatusMacros (convertExpandSections (convertPanels e
                (convertCodeBlocks (convertJiraLinks (convertUserMentions (convertEmoticons
                   (removeUnwantedElements c))))))))) of
        Inl err \<Rightarrow> Inl err
      | Inr c' \<Rightarrow> Inr (cleanupImages e c'))"

definition extractPage :: "env \<Rightarrow> (string \<Rightarrow> node option) \<Rightarrow> bool \<Rightarrow> error + string" where
  \<comment> \<open>\<open>qs\<close> is \<open>document.querySelector\<close>. The result is the \<open>html\<close> field; the title and the
      metadata are read from the document by queries that cannot fail and are left out.
      \<open>cloneNode(true)\<close> is the identity on a tree value.\<close>
  "extractPage e qs embedImages =
     (case findContentElement qs innerHTML of
        None \<Rightarrow> Inl (Error extraction_message)
      | Some contentEl \<Rightarrow>
         (case preprocessContent e contentEl of
            Inl err \<Rightarrow> Inl err
          | Inr clone \<Rightarrow> Inr (innerHTML (if embedImages then embedImagesAsBase64 e clone else clone))))"

record response =
  success :: bool
  data :: "string option"
  error_text :: "string option"

definition onExtract :: "env \<Rightarrow> (string \<Rightarrow> node option) \<Rightarrow> bool \<Rightarrow> response" where
  \<comment> \<open>the message listener: \<open>.then(data => sendResponse({success: true, data}))
      .catch(err => sendResponse({success: false, error: err.message}))\<close>\<close>
  "onExtract e qs embedImages =
     (case extractPage e qs embedImages of
        Inr html \<Rightarrow> \<lparr>success = True, data = Some html, error_text = None\<rparr>
      | Inl (Error m) \<Rightarrow> \<lparr>success = False, data = None, error_text = Some m\<rparr>)"

datatype outcome = Failed string | Converted string

definition handleConvert :: "(string \<Rightarrow> string) \<Rightarrow> response \<Rightarrow> outcome" where
  \<comment> \<open>the popup's handler from the response on; \<open>convert\<close> is \<open>convertToMarkdown\<close>. A
      \<open>Failed m\<close> is the \<open>catch\<close> branch: the status line shows \<open>m\<close> and nothing is converted.\<close>
  "handleConvert convert r =
     (if \<not> success r
      then Failed (first_truthy [error_text r,
                     Some ''Failed to extract content. Is this a Confluence page?''])
      else (case data r of
              None \<Rightarrow> Failed ''No content found on this page.''
            | Some html \<Rightarrow>
               if html = [] \<or> length (trim html) = 0 then Failed ''No content found on this page.''
               else Converted (convert html)))"

section \<open>The table rules of the renderer\<close>

text \<open>
  The replacement functions registered by \<open>addTableRules\<close>. The renderer calls each with
  the rendered content of the node's children and the node; what a rule reads of the
  node's surroundings is an argument here.
\<close>

fun squeeze :: "string \<Rightarrow> bool \<Rightarrow> string \<Rightarrow> string" where
  \<comment> \<open>\<open>s.replace(/\n{2,}/g, r)\<close>; the flag: inside a run that has been replaced\<close>
  "squeeze r b [] = []"
| "squeeze r b (c # cs) =
     (if c = CHR 0x0A
      then (if b then squeeze r True cs
            else if take 1 cs = [CHR 0x0A] then r @ squeeze r True cs
            else c # squeeze r False cs)
      else c # squeeze r False cs)"

definition escape_pipes :: "string \<Rightarrow> string" where
  \<comment> \<open>\<open>s.replace(/\|/g, '\\|')\<close>\<close>
  "escape_pipes s = concat (map (\<lambda>c. if c = CHR ''|'' then [CHR 0x5C, CHR ''|''] else [c]) s)"

definition tableCell :: "string \<Rightarrow> nat \<Rightarrow> string" where
  \<comment> \<open>\<open>index\<close>: the position of the cell among \<open>parentNode.childNodes\<close>\<close>
  "tableCell content index =
     (if index = 0 then ''| '' else '' '')
     @ trim (escape_pipes (map (\<lambda>c. if c = CHR 0x0A then CHR '' '' else c)
                               (squeeze ''<br>'' False content)))
     @ '' |''"

definition align_border :: "node \<Rightarrow> string" where
  "align_border c =
     (let align = toLowerCase (or_empty (getAttribute c ''align''))
      in if align = ''left'' then '':--'' else if align = ''right'' then ''--:''
         else if align = ''center'' then '':-:'' else ''---'')"

definition separator_cells :: "node list \<Rightarrow> string" where
  \<comment> \<open>one marker per element child of the row, the first with the opening pipe\<close>
  "separator_cells cs = concat (map (\<lambda>(i, c). (if i = 0 then ''| '' else '' '') @ align_border c @ '' |'')
                                    (zip [0..<length cs] cs))"

definition tableRow :: "string \<Rightarrow> bool \<Rightarrow> node \<Rightarrow> string" where
  \<comment> \<open>\<open>heading\<close> is \<open>isHeadingRow(node)\<close>\<close>
  "tableRow content heading tr =
     [CHR 0x0A] @ content
     @ (if heading then [CHR 0x0A] @ separator_cells (filter is_element (childNodes tr)) else [])"

definition isFirstTbody :: "node option \<Rightarrow> node \<Rightarrow> bool" where
  \<comment> \<open>\<open>prev\<close> is \<open>element.previousElementSibling\<close>\<close>
  "isFirstTbody prev el =
     (is_tag ''tbody'' el
      \<and> (case prev of None \<Rightarrow> True
          | Some p \<Rightarrow> is_tag ''thead'' p \<and> trim (textContent p) = []))"

definition isHeadingRow :: "node option \<Rightarrow> node \<Rightarrow> nat \<Rightarrow> bool" where
  \<comment> \<open>the row is child \<open>i\<close> of \<open>parent\<close>, whose previous element sibling is \<open>prev\<close>;
      \<open>parent.firstElementChild === tr\<close>: no element stands before the row\<close>
  "isHeadingRow prev parent i =
     (if is_tag ''thead'' parent then True
      else if list_all (\<lambda>n. \<not> is_element n) (take i (childNodes parent))
              \<and> (is_tag ''table'' parent \<or> (is_tag ''tbody'' parent \<and> isFirstTbody prev parent))
           then (let cells = filter is_cell (childNodes (childNodes parent ! i))
                 in length cells > 0 \<and> list_all (is_tag ''th'') cells)
      else False)"

fun split_lines :: "string \<Rightarrow> string list" where
  \<comment> \<open>\<open>s.split('\n')\<close>\<close>
  "split_lines [] = [[]]"
| "split_lines (c # cs) =
     (if c = CHR 0x0A then [] # split_lines cs
      else (case split_lines cs of l # ls \<Rightarrow> (c # l) # ls | [] \<Rightarrow> [[c]]))"

fun join_lines :: "string list \<Rightarrow> string" where
  \<comment> \<open>\<open>lines.join('\n')\<close>\<close>
  "join_lines [] = []"
| "join_lines [l] = l"
| "join_lines (l # k # ls) = l @ [CHR 0x0A] @ join_lines (k # ls)"

definition separator_char :: "char \<Rightarrow> bool" where
  \<comment> \<open>the class \<open>[\s:|-]\<close>\<close>
  "separator_char c = (is_space c \<or> c = CHR '':'' \<or> c = CHR ''|'' \<or> c = CHR ''-'')"

definition is_separator_line :: "string \<Rightarrow> bool" where
  \<comment> \<open>\<open>/^\|[\s:|-]+\|$/.test(line.trim())\<close>: a pipe, one or more characters of the class,
      a pipe\<close>
  "is_separator_line line =
     (let l = trim line
      in length l \<ge> 3 \<and> hd l = CHR ''|'' \<and> last l = CHR ''|''
         \<and> list_all separator_char (butlast (tl l)))"

definition synthetic_separator :: "nat \<Rightarrow> string" where
  \<comment> \<open>\<open>'| ' + Array(colCount).fill('---').join(' | ') + ' |'\<close>\<close>
  "synthetic_separator n =
     ''| '' @ concat (map (\<lambda>i. (if i = 0 then [] else '' | '') @ ''---'') [0..<n]) @ '' |''"

definition table_lines :: "string \<Rightarrow> string list" where
  \<comment> \<open>\<open>content.trim().split('\n').filter((l) => l.trim())\<close>\<close>
  "table_lines content = filter (\<lambda>l. trim l \<noteq> []) (split_lines (trim content))"

definition table_rule :: "string \<Rightarrow> string" where
  "table_rule content =
     (let lines = table_lines content
      in if length lines = 0 then []
         else (let hasSeparator = list_ex is_separator_line lines;
                   colCount = int (length (filter (\<lambda>c. c = CHR ''|'') (hd lines))) - 1;
                   lines' = (if \<not> hasSeparator \<and> colCount > 0
                             then hd lines # synthetic_separator (nat colCount) # tl lines
                             else lines)
               in [CHR 0x0A, CHR 0x0A] @ squeeze [CHR 0x0A] False (join_lines lines')
                  @ [CHR 0x0A, CHR 0x0A]))"

subsection \<open>The walk over a table\<close>

fun prev_element :: "node list \<Rightarrow> nat \<Rightarrow> node option" where
  \<comment> \<open>\<open>previousElementSibling\<close> of child \<open>i\<close>\<close>
  "prev_element ns i = (case filter is_element (take i ns) of [] \<Rightarrow> None | es \<Rightarrow> Some (last es))"

definition render_row :: "(node \<Rightarrow> string) \<Rightarrow> node option \<Rightarrow> node \<Rightarrow> nat \<Rightarrow> string" where
  "render_row inner prev parent i =
     (let tr = childNodes parent ! i
      in tableRow (concat (map (\<lambda>(k, c). if is_cell c then tableCell (inner c) k else inner c)
                               (zip [0..<length (childNodes tr)] (childNodes tr))))
                  (isHeadingRow prev parent i) tr)"

definition render_rows :: "(node \<Rightarrow> string) \<Rightarrow> node option \<Rightarrow> node \<Rightarrow> string" where
  "render_rows inner prev parent =
     concat (map (\<lambda>(i, c). if is_tag ''tr'' c then render_row inner prev parent i else inner c)
                 (zip [0..<length (childNodes parent)] (childNodes parent)))"

definition render_table :: "(node \<Rightarrow> string) \<Rightarrow> node \<Rightarrow> string" where
  \<comment> \<open>Modelled from the spec: the rule dispatch of the renderer (Turndown, \<open>lib/turndown.js\<close>,
      is not among the sources). The tree is walked bottom-up, each node is rendered by
      the rule that matches it, and the content handed to a rule is the concatenation of
      what its children rendered to. \<open>inner\<close> stands for the rules outside the table
      rules: it gives the rendered content of a cell, and the rendering of any other
      node; a section passes its content through.\<close>
  "render_table inner t =
     table_rule (concat (map (\<lambda>(i, c).
        if is_tag ''thead'' c \<or> is_tag ''tbody'' c \<or> is_tag ''tfoot'' c
        then render_rows inner (prev_element (childNodes t) i) c
        else if is_tag ''tr'' c then render_row inner None t i
        else inner c)
       (zip [0..<length (childNodes t)] (childNodes t))))"

section \<open>Predicates of the statements\<close>

definition grid_ok :: "nat \<Rightarrow> nat \<Rightarrow> (nat \<Rightarrow> nat \<Rightarrow> info \<Rightarrow> bool) \<Rightarrow> grid \<Rightarrow> bool" where
  \<comment> \<open>a grid of \<open>nrows\<close> rows of \<open>m\<close> entries, every entry satisfying \<open>Q\<close> at its position\<close>
  "grid_ok nrows m Q g = (length g = nrows \<and>
      (\<forall>r < nrows. length (g ! r) = m \<and> (\<forall>c < m. \<forall>i. g ! r ! c = Some i \<longrightarrow> Q r c i)))"

definition covers :: "node list \<Rightarrow> nat \<Rightarrow> nat \<Rightarrow> info \<Rightarrow> bool" where
  \<comment> \<open>the entry \<open>i\<close> at position \<open>(r, c)\<close> comes from a cell of row \<open>originRow i\<close> whose span,
      laid out from \<open>(originRow i, originCol i)\<close>, reaches \<open>(r, c)\<close>; it holds that cell without its
      span attributes, and it is the origin exactly at the top-left position\<close>
  "covers rows r c i =
     (originRow i < length rows
      \<and> (\<exists>c0 \<in> set (cells_of (rows ! originRow i)).
            cell i = strip_spans c0
          \<and> originRow i \<le> r \<and> int r < int (originRow i) + span_attr c0 ''rowspan''
          \<and> originCol i \<le> c \<and> int c < int (originCol i) + span_attr c0 ''colspan'')
      \<and> (isOrigin i \<longleftrightarrow> r = originRow i \<and> c = originCol i))"


definition entry :: "nat \<Rightarrow> nat \<Rightarrow> placement \<Rightarrow> info" where
  \<comment> \<open>what the marking loops write at a position for a placed cell\<close>
  "entry r c p = (case p of (r0, c0, cl) \<Rightarrow>
      \<lparr>originRow = r0, originCol = c0, isOrigin = (r = r0 \<and> c = c0), cell = strip_spans cl\<rparr>)"

definition agrees :: "nat \<Rightarrow> nat \<Rightarrow> placement list \<Rightarrow> grid \<Rightarrow> bool" where
  \<comment> \<open>the grid holds at every position the entry of the last placement that reaches it\<close>
  "agrees n m ps g = (length g = n \<and>
      (\<forall>r < n. length (g ! r) = m \<and> (\<forall>c < m. g ! r ! c = map_option (entry r c) (writer ps r c))))"

definition shape :: "nat \<Rightarrow> nat \<Rightarrow> grid \<Rightarrow> bool" where
  "shape n m g = (length g = n \<and> (\<forall>r < n. length (g ! r) = m))"




definition rows3 :: "node list \<Rightarrow> node list" where
  \<comment> \<open>\<open>table.rows\<close> in terms of the children of the table\<close>
  "rows3 kids = head_rows kids @ body_rows kids @ foot_rows kids"





section \<open>Concrete inputs\<close>

definition plain_env :: env where
  \<comment> \<open>a browser for the examples: its parser knows the fragments the examples assign\<close>
  "plain_env = \<lparr>
     parse_html = (\<lambda>s.
        if s = ''<strong>'' @ [CHR 0xE2, CHR 0x9A, CHR 0xA0, CHR 0xEF, CHR 0xB8, CHR 0x8F] @ '' Warning:</strong>''
        then [Element ''strong'' [] [Text ([CHR 0xE2, CHR 0x9A, CHR 0xA0, CHR 0xEF, CHR 0xB8, CHR 0x8F] @ '' Warning:'')]]
        else if s = ''<b>X</b>'' then [Element ''b'' [] [Text ''X'']]
        else [Text s]),
     resolve_url = (\<lambda>u. Some (''https://wiki.example'' @ u)),
     origin = ''https://wiki.example'',
     strip_size_style = (\<lambda>v. v),
     fetch_image = (\<lambda>u. FetchRejected),
     canvas_image = (\<lambda>u. None)\<rparr>"

definition toc_page :: node where
  \<comment> \<open>\<open><div id="content"><div class="toc-macro">Contents</div></div>\<close>\<close>
  "toc_page = Element ''div'' [(''id'', ''content'')]
                [Element ''div'' [(''class'', ''toc-macro'')] [Text ''Contents'']]"

definition toc_document :: "string \<Rightarrow> node option" where
  "toc_document sel = (if sel = ''#content'' then Some toc_page else None)"

definition warning_only :: node where
  \<comment> \<open>\<open><div class="confluence-information-macro-warning"><p>Be careful</p></div>\<close>\<close>
  "warning_only = Element ''div'' [(''class'', ''confluence-information-macro-warning'')]
                    [Element ''p'' [] [Text ''Be careful'']]"

definition warning_macro :: node where
  \<comment> \<open>\<open><div class="confluence-information-macro confluence-information-macro-warning">
      <p>Be careful</p></div>\<close>\<close>
  "warning_macro = Element ''div''
     [(''class'', ''confluence-information-macro confluence-information-macro-warning'')]
     [Element ''p'' [] [Text ''Be careful'']]"

definition warning_label :: string where
  "warning_label = [CHR 0xE2, CHR 0x9A, CHR 0xA0, CHR 0xEF, CHR 0xB8, CHR 0x8F] @ '' Warning:''"

definition bare_table :: node where
  \<comment> \<open>\<open><table><caption>Totals</caption></table>\<close>\<close>
  "bare_table = Element ''table'' [] [Element ''caption'' [] [Text ''Totals'']]"

definition broken_image :: node where
  "broken_image = Element ''img'' [(''src'', ''https://wiki.example/a.png''), (''alt'', ''a'')] []"

definition no_document :: "string \<Rightarrow> node option" where
  "no_document sel = None"

definition caption_table :: node where
  \<comment> \<open>\<open><table><caption><table><tr><td><p>a</p><p>b</p></td></tr></table></caption></table>\<close>:
      no row of its own\<close>
  "caption_table = Element ''table'' []
     [Element ''caption'' []
        [Element ''table'' []
           [Element ''tr'' []
              [Element ''td'' [] [Element ''p'' [] [Text ''a''], Element ''p'' [] [Text ''b'']]]]]]"

definition colspan_table :: node where
  \<comment> \<open>three columns; the first cell of the first row spans two of them\<close>
  "colspan_table = Element ''table'' [] [Element ''tbody'' []
     [Element ''tr'' [] [Element ''td'' [(''colspan'', ''2'')] [Text ''A''], Element ''td'' [] [Text ''B'']],
      Element ''tr'' [] [Element ''td'' [] [Text ''c''], Element ''td'' [] [Text ''d''],
                         Element ''td'' [] [Text ''e'']]]]"

definition overlap_table :: node where
  \<comment> \<open>the header cell of the first row spans two rows; the cell of the second row spans
      two columns and so reaches the position below the header cell\<close>
  "overlap_table = Element ''table'' []
     [Element ''tr'' [] [Element ''td'' [] [Text ''a''], Element ''th'' [(''rowspan'', ''2'')] [Text ''h'']],
      Element ''tr'' [] [Element ''td'' [(''colspan'', ''2'')] [Text ''b'']]]"

definition names_table :: node where
  \<comment> \<open>two rows of two \<open>td\<close> cells; the first row reads \<open>Name\<close>, \<open>Age\<close>\<close>
  "names_table = Element ''table'' [] [Element ''tbody'' []
     [Element ''tr'' [] [Element ''td'' [] [Text ''Name''], Element ''td'' [] [Text ''Age'']],
      Element ''tr'' [] [Element ''td'' [] [Text ''Bob''], Element ''td'' [] [Text ''42'']]]]"

definition mixed_table :: node where
  \<comment> \<open>one row, a \<open>th\<close> and a plain \<open>td\<close>\<close>
  "mixed_table = Element ''table'' [] [Element ''tbody'' []
     [Element ''tr'' [] [Element ''th'' [] [Text ''H''], Element ''td'' [] [Text ''x'']]]]"




section \<open>Properties\<close>

lemma normalizeLanguage_js: "normalizeLanguage ''JS'' = Str ''javascript''"
  by (simp add: normalizeLanguage_def object_get_def language_map_def toLowerCase_def lower_char_def
      upper_chars_def lower_chars_def)

lemma first_candidate_None:
  "first_candidate qs ok sels = None \<longleftrightarrow> (\<forall>sel \<in> set sels. \<forall>el. qs sel = Some el \<longrightarrow> \<not> ok el)"
  by (induction sels) (auto split: option.splits)

lemma first_candidate_Some:
  "first_candidate qs ok sels = Some el \<longleftrightarrow>
     (\<exists>i < length sels. qs (sels ! i) = Some el \<and> ok el \<and>
        (\<forall>j < i. \<forall>el'. qs (sels ! j) = Some el' \<longrightarrow> \<not> ok el'))"
proof (induction sels)
  case Nil
  then show ?case by simp
next
  case (Cons sel sels)
  show ?case
  proof (cases "\<exists>e. qs sel = Some e \<and> ok e")
    case True
    then obtain e where e: "qs sel = Some e" "ok e" by blast
    have "first_candidate qs ok (sel # sels) = Some e" using e by simp
    moreover have "(\<exists>i < length (sel # sels). qs ((sel # sels) ! i) = Some el \<and> ok el \<and>
        (\<forall>j < i. \<forall>el'. qs ((sel # sels) ! j) = Some el' \<longrightarrow> \<not> ok el')) \<longleftrightarrow> el = e"
    proof
      assume "\<exists>i < length (sel # sels). qs ((sel # sels) ! i) = Some el \<and> ok el \<and>
        (\<forall>j < i. \<forall>el'. qs ((sel # sels) ! j) = Some el' \<longrightarrow> \<not> ok el')"
      then obtain i where i: "qs ((sel # sels) ! i) = Some el" "ok el"
        "\<forall>j < i. \<forall>el'. qs ((sel # sels) ! j) = Some el' \<longrightarrow> \<not> ok el'" by blast
      have "i = 0"
      proof (rule ccontr)
        assume "i \<noteq> 0"
        then have "0 < i" by simp
        with i(3) e show False by force
      qed
      with i(1) e(1) show "el = e" by simp
    next
      assume "el = e"
      with e have "qs ((sel # sels) ! 0) = Some el \<and> ok el" by simp
      then show "\<exists>i < length (sel # sels). qs ((sel # sels) ! i) = Some el \<and> ok el \<and>
        (\<forall>j < i. \<forall>el'. qs ((sel # sels) ! j) = Some el' \<longrightarrow> \<not> ok el')"
        by (intro exI[of _ 0]) simp
    qed
    ultimately show ?thesis by auto
  next
    case False
    then have skip: "first_candidate qs ok (sel # sels) = first_candidate qs ok sels"
      by (auto split: option.splits)
    have "(\<exists>i < length (sel # sels). qs ((sel # sels) ! i) = Some el \<and> ok el \<and>
        (\<forall>j < i. \<forall>el'. qs ((sel # sels) ! j) = Some el' \<longrightarrow> \<not> ok el')) \<longleftrightarrow>
      (\<exists>i < length sels. qs (sels ! i) = Some el \<and> ok el \<and>
        (\<forall>j < i. \<forall>el'. qs (sels ! j) = Some el' \<longrightarrow> \<not> ok el'))" (is "?L \<longleftrightarrow> ?R")
    proof
      assume ?L
      then obtain i where i: "i < length (sel # sels)" "qs ((sel # sels) ! i) = Some el" "ok el"
        "\<forall>j < i. \<forall>el'. qs ((sel # sels) ! j) = Some el' \<longrightarrow> \<not> ok el'" by blast
      from False i(2,3) have "i \<noteq> 0" by (cases i) auto
      then obtain k where k: "i = Suc k" by (cases i) auto
      have "\<forall>j < k. \<forall>el'. qs (sels ! j) = Some el' \<longrightarrow> \<not> ok el'"
      proof (intro allI impI)
        fix j el' assume "j < k" "qs (sels ! j) = Some el'"
        then have "Suc j < i" "qs ((sel # sels) ! Suc j) = Some el'" using k by auto
        with i(4) show "\<not> ok el'" by blast
      qed
      with i k show ?R by (intro exI[of _ k]) auto
    next
      assume ?R
      then obtain k where k: "k < length sels" "qs (sels ! k) = Some el" "ok el"
        "\<forall>j < k. \<forall>el'. qs (sels ! j) = Some el' \<longrightarrow> \<not> ok el'" by blast
      have "\<forall>j < Suc k. \<forall>el'. qs ((sel # sels) ! j) = Some el' \<longrightarrow> \<not> ok el'"
      proof (intro allI impI)
        fix j el' assume j: "j < Suc k" "qs ((sel # sels) ! j) = Some el'"
        show "\<not> ok el'"
        proof (cases j)
          case 0
          with j False show ?thesis by auto
        next
          case (Suc m)
          with j k(4) show ?thesis by auto
        qed
      qed
      with k show ?L by (intro exI[of _ "Suc k"]) auto
    qed
    with skip Cons.IH show ?thesis by simp
  qed
qed

subsection \<open>Language detection\<close>

lemma normalizeLanguage_alias:
  "map_of language_map (toLowerCase lang) = Some v \<Longrightarrow> v \<noteq> [] \<Longrightarrow> normalizeLanguage lang = Str v"
  by (simp add: normalizeLanguage_def object_get_def)

lemma normalizeLanguage_passthrough:
  "map_of language_map (toLowerCase lang) = None \<Longrightarrow> toLowerCase lang \<notin> set object_prototype_keys
     \<Longrightarrow> normalizeLanguage lang = Str (toLowerCase lang)"
  by (simp add: normalizeLanguage_def object_get_def)

text \<open>
  Claim C6, the part the source misses. \<open>normalizeLanguage\<close> looks the lower-cased token
  up in an object literal, so a token that names a property every object inherits is
  found there: for the class \<open>language-constructor\<close> the detected language is not the
  string \<open>constructor\<close> but the inherited function, and the code element gets the class
  \<open>language-function Object() { [native code] }\<close>.
\<close>

theorem inherited_key_is_not_passed_through:
  "normalizeLanguage ''constructor'' = Inherited ''constructor''
   \<and> detectCodeLanguage (Element ''pre'' [(''class'', ''language-constructor'')] [Text ''x'']) None
       = Inherited ''constructor''
   \<and> code_block (detectCodeLanguage
         (Element ''pre'' [(''class'', ''language-constructor'')] [Text ''x'']) None) ''x''
       = Element ''pre'' []
           [Element ''code'' [(''class'', ''language-function Object() { [native code] }'')] [Text ''x'']]"
  by code_simp

subsection \<open>The content root and the fatal errors\<close>

lemma first_candidate_all_None: "(\<forall>sel \<in> set sels. qs sel = None) \<Longrightarrow> first_candidate qs ok sels = None"
  by (simp add: first_candidate_None)

text \<open>
  Claim C7, amended. \<open>findContentElement\<close> returns the candidate of the first selector
  whose element has more than 100 characters of trimmed \<open>innerHTML\<close>; when no selector
  has one, the candidate of the first selector whose element has non-empty trimmed
  \<open>innerHTML\<close>. When no selector finds an element, \<open>extractPage\<close> fails with the
  extraction message, the listener answers \<open>{success: false, error: message}\<close>, and the
  popup's handler ends in its \<open>catch\<close> branch with that message. The conversion fails in
  exactly three cases: no content element is found, preprocessing throws, or the
  extracted \<open>html\<close> is blank.
\<close>

theorem content_root_and_failure:
  fixes qs :: "string \<Rightarrow> node option"
  shows "(findContentElement qs innerHTML = Some el \<longleftrightarrow>
           (\<exists>i < length content_selectors. qs (content_selectors ! i) = Some el
               \<and> 100 < length (trim (innerHTML el))
               \<and> (\<forall>j < i. \<forall>el'. qs (content_selectors ! j) = Some el' \<longrightarrow> \<not> 100 < length (trim (innerHTML el'))))
         \<or> ((\<forall>sel \<in> set content_selectors. \<forall>el'. qs sel = Some el' \<longrightarrow> \<not> 100 < length (trim (innerHTML el')))
            \<and> (\<exists>i < length content_selectors. qs (content_selectors ! i) = Some el
               \<and> 0 < length (trim (innerHTML el))
               \<and> (\<forall>j < i. \<forall>el'. qs (content_selectors ! j) = Some el' \<longrightarrow> \<not> 0 < length (trim (innerHTML el'))))))
       \<and> ((\<forall>sel \<in> set content_selectors. qs sel = None) \<longrightarrow>
             extractPage e qs emb = Inl (Error extraction_message)
           \<and> onExtract e qs emb = \<lparr>success = False, data = None, error_text = Some extraction_message\<rparr>
           \<and> handleConvert convert (onExtract e qs emb) = Failed extraction_message)
       \<and> ((\<exists>m. handleConvert convert (onExtract e qs emb) = Failed m) \<longleftrightarrow>
             findContentElement qs innerHTML = None
           \<or> (\<exists>c err. findContentElement qs innerHTML = Some c \<and> preprocessContent e c = Inl err)
           \<or> (\<exists>h. extractPage e qs emb = Inr h \<and> length (trim h) = 0))"
proof (intro conjI)
  show "findContentElement qs innerHTML = Some el \<longleftrightarrow>
           (\<exists>i < length content_selectors. qs (content_selectors ! i) = Some el
               \<and> 100 < length (trim (innerHTML el))
               \<and> (\<forall>j < i. \<forall>el'. qs (content_selectors ! j) = Some el' \<longrightarrow> \<not> 100 < length (trim (innerHTML el'))))
         \<or> ((\<forall>sel \<in> set content_selectors. \<forall>el'. qs sel = Some el' \<longrightarrow> \<not> 100 < length (trim (innerHTML el')))
            \<and> (\<exists>i < length content_selectors. qs (content_selectors ! i) = Some el
               \<and> 0 < length (trim (innerHTML el))
               \<and> (\<forall>j < i. \<forall>el'. qs (content_selectors ! j) = Some el' \<longrightarrow> \<not> 0 < length (trim (innerHTML el')))))"
  proof (cases "first_candidate qs (\<lambda>el. 100 < length (trim (innerHTML el))) content_selectors")
    case None
    then have no: "\<forall>sel \<in> set content_selectors. \<forall>el'. qs sel = Some el' \<longrightarrow> \<not> 100 < length (trim (innerHTML el'))"
      by (simp add: first_candidate_None)
    have eq: "findContentElement qs innerHTML
        = first_candidate qs (\<lambda>el. 0 < length (trim (innerHTML el))) content_selectors"
      using None by (simp add: findContentElement_def)
    have not1: "\<not> (\<exists>i < length content_selectors. qs (content_selectors ! i) = Some el
               \<and> 100 < length (trim (innerHTML el))
               \<and> (\<forall>j < i. \<forall>el'. qs (content_selectors ! j) = Some el' \<longrightarrow> \<not> 100 < length (trim (innerHTML el'))))"
      using no by (metis nth_mem)
    show ?thesis unfolding eq first_candidate_Some using no not1 by blast
  next
    case (Some x)
    then have eq: "findContentElement qs innerHTML = Some x"
      by (simp add: findContentElement_def)
    from Some have ex: "\<exists>i < length content_selectors. qs (content_selectors ! i) = Some x
               \<and> 100 < length (trim (innerHTML x))
               \<and> (\<forall>j < i. \<forall>el'. qs (content_selectors ! j) = Some el' \<longrightarrow> \<not> 100 < length (trim (innerHTML el')))"
      by (simp add: first_candidate_Some)
    then have notall: "\<not> (\<forall>sel \<in> set content_selectors. \<forall>el'. qs sel = Some el' \<longrightarrow> \<not> 100 < length (trim (innerHTML el')))"
      by (metis nth_mem)
    show ?thesis
    proof
      assume "findContentElement qs innerHTML = Some el"
      with eq have "el = x" by simp
      with ex show "(\<exists>i < length content_selectors. qs (content_selectors ! i) = Some el
               \<and> 100 < length (trim (innerHTML el))
               \<and> (\<forall>j < i. \<forall>el'. qs (content_selectors ! j) = Some el' \<longrightarrow> \<not> 100 < length (trim (innerHTML el'))))
         \<or> ((\<forall>sel \<in> set content_selectors. \<forall>el'. qs sel = Some el' \<longrightarrow> \<not> 100 < length (trim (innerHTML el')))
            \<and> (\<exists>i < length content_selectors. qs (content_selectors ! i) = Some el
               \<and> 0 < length (trim (innerHTML el))
               \<and> (\<forall>j < i. \<forall>el'. qs (content_selectors ! j) = Some el' \<longrightarrow> \<not> 0 < length (trim (innerHTML el')))))"
        by blast
    next
      assume "(\<exists>i < length content_selectors. qs (content_selectors ! i) = Some el
               \<and> 100 < length (trim (innerHTML el))
               \<and> (\<forall>j < i. \<forall>el'. qs (content_selectors ! j) = Some el' \<longrightarrow> \<not> 100 < length (trim (innerHTML el'))))
         \<or> ((\<forall>sel \<in> set content_selectors. \<forall>el'. qs sel = Some el' \<longrightarrow> \<not> 100 < length (trim (innerHTML el')))
            \<and> (\<exists>i < length content_selectors. qs (content_selectors ! i) = Some el
               \<and> 0 < length (trim (innerHTML el))
               \<and> (\<forall>j < i. \<forall>el'. qs (content_selectors ! j) = Some el' \<longrightarrow> \<not> 0 < length (trim (innerHTML el')))))"
      with notall have "\<exists>i < length content_selectors. qs (content_selectors ! i) = Some el
               \<and> 100 < length (trim (innerHTML el))
               \<and> (\<forall>j < i. \<forall>el'. qs (content_selectors ! j) = Some el' \<longrightarrow> \<not> 100 < length (trim (innerHTML el')))"
        by blast
      then have "first_candidate qs (\<lambda>el. 100 < length (trim (innerHTML el))) content_selectors = Some el"
        by (simp add: first_candidate_Some)
      then show "findContentElement qs innerHTML = Some el"
        by (simp add: findContentElement_def)
    qed
  qed
next
  show "(\<forall>sel \<in> set content_selectors. qs sel = None) \<longrightarrow>
             extractPage e qs emb = Inl (Error extraction_message)
           \<and> onExtract e qs emb = \<lparr>success = False, data = None, error_text = Some extraction_message\<rparr>
           \<and> handleConvert convert (onExtract e qs emb) = Failed extraction_message"
  proof
    assume a: "\<forall>sel \<in> set content_selectors. qs sel = None"
    have "findContentElement qs innerHTML = None"
      using a by (simp add: findContentElement_def first_candidate_all_None)
    then have x: "extractPage e qs emb = Inl (Error extraction_message)"
      by (simp add: extractPage_def)
    have nonempty: "extraction_message \<noteq> []" by (simp add: extraction_message_def)
    show "extractPage e qs emb = Inl (Error extraction_message)
           \<and> onExtract e qs emb = \<lparr>success = False, data = None, error_text = Some extraction_message\<rparr>
           \<and> handleConvert convert (onExtract e qs emb) = Failed extraction_message"
      using x nonempty by (simp add: onExtract_def handleConvert_def first_truthy_def truthy_def)
  qed
next
  show "(\<exists>m. handleConvert convert (onExtract e qs emb) = Failed m) \<longleftrightarrow>
             findContentElement qs innerHTML = None
           \<or> (\<exists>c err. findContentElement qs innerHTML = Some c \<and> preprocessContent e c = Inl err)
           \<or> (\<exists>h. extractPage e qs emb = Inr h \<and> length (trim h) = 0)"
  proof (cases "extractPage e qs emb")
    case (Inl err)
    obtain m where m: "err = Error m" by (cases err) auto
    have f: "\<exists>m. handleConvert convert (onExtract e qs emb) = Failed m"
      using Inl m by (simp add: onExtract_def handleConvert_def)
    have "findContentElement qs innerHTML = None
           \<or> (\<exists>c err. findContentElement qs innerHTML = Some c \<and> preprocessContent e c = Inl err)"
      using Inl by (auto simp: extractPage_def split: option.splits sum.splits)
    with f show ?thesis by blast
  next
    case (Inr h)
    have nf: "findContentElement qs innerHTML \<noteq> None"
      using Inr by (auto simp: extractPage_def split: option.splits)
    have np: "\<not> (\<exists>c err. findContentElement qs innerHTML = Some c \<and> preprocessContent e c = Inl err)"
      using Inr by (auto simp: extractPage_def split: option.splits sum.splits)
    have "(\<exists>m. handleConvert convert (onExtract e qs emb) = Failed m) \<longleftrightarrow> length (trim h) = 0"
      using Inr by (auto simp: onExtract_def handleConvert_def trim_def)
    with Inr nf np show ?thesis by auto
  qed
qed

theorem content_root_and_failure_witness:
  "list_all (\<lambda>sel. no_document sel = None) content_selectors
   \<and> extractPage plain_env no_document False = Inl (Error extraction_message)
   \<and> handleConvert (\<lambda>h. h) (onExtract plain_env no_document False) = Failed extraction_message"
proof -
  have h: "\<forall>sel \<in> set content_selectors. no_document sel = None"
    by (simp add: no_document_def)
  have "(\<forall>sel \<in> set content_selectors. no_document sel = None) \<longrightarrow>
             extractPage plain_env no_document False = Inl (Error extraction_message)
           \<and> onExtract plain_env no_document False
               = \<lparr>success = False, data = None, error_text = Some extraction_message\<rparr>
           \<and> handleConvert (\<lambda>h. h) (onExtract plain_env no_document False) = Failed extraction_message"
    using content_root_and_failure [where qs = no_document and e = plain_env and emb = False
      and convert = "\<lambda>h. h"] by blast
  moreover have "list_all (\<lambda>sel. no_document sel = None) content_selectors"
    by (simp add: list_all_iff no_document_def)
  ultimately show ?thesis using h by blast
qed

text \<open>
  The claim as stated fails on a page whose content root holds a table of contents only:
  the root is found (its \<open>innerHTML\<close> is not empty), the first pass removes the table of
  contents, the extraction succeeds with an empty \<open>html\<close>, and the popup aborts the
  conversion with its own error: a fatal error that is no extraction failure.
\<close>

theorem only_fatal_error_counterexample:
  "findContentElement toc_document innerHTML = Some toc_page
   \<and> onExtract plain_env toc_document False = \<lparr>success = True, data = Some [], error_text = None\<rparr>
   \<and> handleConvert (\<lambda>h. h) (onExtract plain_env toc_document False)
       = Failed ''No content found on this page.''"
  by code_simp

subsection \<open>Image embedding\<close>

text \<open>
  Claim C8. When the first strategy fails on the image's \<open>src\<close> and the canvas strategy
  fails as well, \<open>fetchImageAsDataUri\<close> throws, \<open>fetchAndEmbedImage\<close> returns normally and
  leaves the image as it was, \<open>src\<close> included, and an image that was not embedded is
  not embedded afterwards. Embedding adds no failure to the extraction: where
  \<open>extractPage\<close> succeeds without embedding it succeeds with it.
\<close>

theorem embedding_failure_is_absorbed:
  assumes "fetch_fails e (or_empty (getAttribute img ''src''))"
      and "canvas_image e (or_empty (getAttribute img ''src'')) = None"
    shows "(\<exists>err. fetchImageAsDataUri e (or_empty (getAttribute img ''src'')) = Inl err)
         \<and> fetchAndEmbedImage e img = img
         \<and> getAttribute (fetchAndEmbedImage e img) ''src'' = getAttribute img ''src''
         \<and> (\<not> is_embedded img \<longrightarrow> \<not> is_embedded (fetchAndEmbedImage e img))
         \<and> ((\<exists>h. extractPage e qs False = Inr h) \<longrightarrow> (\<exists>h. extractPage e qs True = Inr h))"
proof -
  have 1: "\<exists>err. fetchImageAsDataUri e (or_empty (getAttribute img ''src'')) = Inl err"
    using assms
    by (auto simp: fetchImageAsDataUri_def fetch_fails_def split: fetch_outcome.splits option.splits)
  then have 2: "fetchAndEmbedImage e img = img"
    by (auto simp: fetchAndEmbedImage_def Let_def)
  have 3: "(\<exists>h. extractPage e qs False = Inr h) \<longrightarrow> (\<exists>h. extractPage e qs True = Inr h)"
    by (auto simp: extractPage_def split: option.splits sum.splits)
  show ?thesis using 1 2 3 by simp
qed

theorem embedding_failure_is_absorbed_witness:
  "fetch_fails plain_env (or_empty (getAttribute broken_image ''src''))
   \<and> canvas_image plain_env (or_empty (getAttribute broken_image ''src'')) = None
   \<and> \<not> is_embedded broken_image
   \<and> fetchAndEmbedImage plain_env broken_image = broken_image
   \<and> \<not> is_embedded (fetchAndEmbedImage plain_env broken_image)"
proof -
  have a: "fetch_fails plain_env (or_empty (getAttribute broken_image ''src''))" by code_simp
  have b: "canvas_image plain_env (or_empty (getAttribute broken_image ''src'')) = None" by code_simp
  have c: "\<not> is_embedded broken_image" by code_simp
  from embedding_failure_is_absorbed [OF a b, where qs = no_document] a b c show ?thesis by simp
qed

subsection \<open>The panel pass\<close>

lemma warning_macro_classes:
  "classList warning_macro = [''confluence-information-macro'', ''confluence-information-macro-warning'']"
  by code_simp

lemma warning_emoji: "js_string (getEmojiForPanel ''Warning'') = [CHR 0xE2, CHR 0x9A, CHR 0xA0, CHR 0xEF, CHR 0xB8, CHR 0x8F]"
  by code_simp

lemma warning_type: "(case List.find (\<lambda>(cls, label). has_class cls warning_macro) panelClasses of
                            Some (cls, label) \<Rightarrow> label | None \<Rightarrow> ''Note'') = ''Warning''"
  by code_simp

lemma warning_body: "or_self (querySelector warning_macro (has_class ''confluence-information-macro-body'')) warning_macro = warning_macro"
  by code_simp

lemma warning_is_macro: "has_class ''confluence-information-macro'' warning_macro"
  by code_simp

lemma bq_not_panel: "\<not> has_attr ''data-panel-type'' (Element ''blockquote'' [] cs)"
  "\<not> has_class ''panel'' (Element ''blockquote'' [] cs)"
  by (simp_all add: has_attr_def hasAttribute_def getAttribute_def has_class_def classList_def className_def or_empty_def)

text \<open>
  Claim C5, amended. The panel pass selects the elements of class
  \<open>confluence-information-macro\<close> and reads the kind of panel from a second class. For the
  input \<open><div class="confluence-information-macro confluence-information-macro-warning">
  <p>Be careful</p></div>\<close> it yields a blockquote whose first paragraph is the strong
  text of the warning emoji and \<open>Warning:\<close>, followed by the paragraph \<open>Be careful\<close>. The
  assumption says what the browser's parser makes of the one fragment the pass assigns.
\<close>

theorem warning_panel:
  assumes "parse_html e (''<strong>'' @ warning_label @ ''</strong>'') = [Element ''strong'' [] [Text warning_label]]"
  shows "convertPanels e (Element ''div'' [] [warning_macro])
       = Element ''div'' [] [Element ''blockquote'' []
           [Element ''p'' [] [Element ''strong'' [] [Text warning_label]],
            Element ''p'' [] [Text ''Be careful'']]]"
proof -
  have wm: "warning_macro = Element ''div''
     [(''class'', ''confluence-information-macro confluence-information-macro-warning'')]
     [Element ''p'' [] [Text ''Be careful'']]" by (simp add: warning_macro_def)
  have prefix: "panel_prefix e ''Warning'' = Element ''p'' [] [Element ''strong'' [] [Text warning_label]]"
    using assms by (simp add: panel_prefix_def warning_emoji warning_label_def)
  have step1: "rewrite (\<lambda>macro.
        if has_class ''confluence-information-macro'' macro
        then (let type = (case List.find (\<lambda>(cls, label). has_class cls macro) panelClasses of
                            Some (cls, label) \<Rightarrow> label | None \<Rightarrow> ''Note'');
                  body = or_self (querySelector macro (has_class ''confluence-information-macro-body'')) macro
              in Some [Element ''blockquote'' [] (panel_prefix e type # childNodes body)])
        else None) [warning_macro]
      = [Element ''blockquote'' [] [Element ''p'' [] [Element ''strong'' [] [Text warning_label]],
            Element ''p'' [] [Text ''Be careful'']]]"
    apply (subst wm)
    apply (simp only: rewrite.simps)
    apply (fold wm)
    apply (simp add: warning_is_macro warning_type warning_body prefix Let_def)
    apply (simp add: wm)
    done
  show ?thesis
    unfolding convertPanels_def
    apply (simp only: on_children.simps step1)
    apply (simp add: bq_not_panel has_attr_def has_class_def hasAttribute_def getAttribute_def classList_def className_def or_empty_def)
    done
qed

theorem warning_panel_witness:
  "parse_html plain_env (''<strong>'' @ warning_label @ ''</strong>'') = [Element ''strong'' [] [Text warning_label]]
   \<and> convertPanels plain_env (Element ''div'' [] [warning_macro])
       = Element ''div'' [] [Element ''blockquote'' []
           [Element ''p'' [] [Element ''strong'' [] [Text warning_label]],
            Element ''p'' [] [Text ''Be careful'']]]"
proof -
  have h: "parse_html plain_env (''<strong>'' @ warning_label @ ''</strong>'') = [Element ''strong'' [] [Text warning_label]]"
    by code_simp
  from warning_panel[OF h] h show ?thesis by simp
qed

text \<open>
  The input of the claim carries the class \<open>confluence-information-macro-warning\<close> alone.
  No selector of the pass matches it: the pass, and the whole preprocessing, leave it as
  it is, and no blockquote exists for the renderer to print.
\<close>

theorem warning_class_alone_counterexample:
  "convertPanels plain_env (Element ''div'' [] [warning_only]) = Element ''div'' [] [warning_only]
   \<and> preprocessContent plain_env (Element ''div'' [] [warning_only])
       = Inr (Element ''div'' [] [warning_only])
   \<and> all_desc (is_tag ''blockquote'') [warning_only] = []"
  by code_simp

subsection \<open>Tables without rows\<close>

lemma index_where_None: "index_where P xs = None \<longleftrightarrow> (\<forall>x \<in> set xs. \<not> P x)"
  by (induction xs) auto

lemma first_tr_None: "first_tr k = None \<longleftrightarrow> tr_children k = []"
  by (simp add: first_tr_def tr_children_def index_where_None filter_empty_conv)

lemma head_rows_Nil: "head_rows kids = [] \<longleftrightarrow> (\<forall>k \<in> set kids. is_tag ''thead'' k \<longrightarrow> tr_children k = [])"
  by (auto simp: head_rows_def section_rows_def)

lemma foot_rows_Nil: "foot_rows kids = [] \<longleftrightarrow> (\<forall>k \<in> set kids. is_tag ''tfoot'' k \<longrightarrow> tr_children k = [])"
  by (auto simp: foot_rows_def section_rows_def)

lemma body_rows_Nil: "body_rows kids = [] \<longleftrightarrow>
   (\<forall>k \<in> set kids. \<not> is_tag ''tr'' k \<and> (is_tag ''tbody'' k \<longrightarrow> tr_children k = []))"
  by (induction kids) (auto simp: body_rows_def)

lemma no_rows_no_first_row:
  assumes "table_rows t = []"
  shows "first_row_path (childNodes t) = None"
proof -
  from assms have h: "head_rows (childNodes t) = []" and b: "body_rows (childNodes t) = []"
    and f: "foot_rows (childNodes t) = []" by (simp_all add: table_rows_def)
  have "index_where (\<lambda>k. is_tag ''thead'' k \<and> first_tr k \<noteq> None) (childNodes t) = None"
    using h by (simp add: index_where_None head_rows_Nil first_tr_None)
  then have 1: "section_row_path ''thead'' (childNodes t) = None"
    by (simp add: section_row_path_def)
  have "index_where (\<lambda>k. is_tag ''tfoot'' k \<and> first_tr k \<noteq> None) (childNodes t) = None"
    using f by (simp add: index_where_None foot_rows_Nil first_tr_None)
  then have 2: "section_row_path ''tfoot'' (childNodes t) = None"
    by (simp add: section_row_path_def)
  have "index_where (\<lambda>k. is_tag ''tr'' k \<or> (is_tag ''tbody'' k \<and> first_tr k \<noteq> None)) (childNodes t) = None"
    using b by (auto simp: index_where_None body_rows_Nil first_tr_None)
  then have 3: "body_row_path (childNodes t) = None"
    by (simp add: body_row_path_def)
  show ?thesis by (simp add: first_row_path_def 1 2 3)
qed

lemma on_children_id: "on_children (\<lambda>x. x) t = t"
  by (cases t) auto

lemma unwrap_cells_no_cells: "all_desc is_cell ns = [] \<Longrightarrow> unwrap_cells ns = ns"
  by (induction ns rule: unwrap_cells.induct) (auto simp: is_cell_def is_tag_def split: if_splits)

lemma tidy_cells_no_cells: "all_desc is_cell ns = [] \<Longrightarrow> tidy_cells e False ns = ns"
  by (induction ns rule: unwrap_cells.induct) (auto simp: is_cell_def is_tag_def split: if_splits)

lemma clean_no_cells: "all_desc is_cell (childNodes t) = [] \<Longrightarrow> cleanCellContent e t = t"
  by (cases t) (auto simp: cleanCellContent_def unwrap_cells_no_cells tidy_cells_no_cells)

text \<open>
  Claim C10, amended. For a table without rows the first four steps return at once and
  leave the table as it is; none fails and no header row is made. The fifth step still
  visits every \<open>td\<close> and \<open>th\<close> below the table, so the normalisation of such a table is
  its cell linearisation, and the table is unchanged when it has no such descendant.
\<close>

theorem table_without_rows:
  assumes "table_rows t = []"
  shows "expandMergedCells t = Inr t \<and> promoteHeaderCells e t = t \<and> ensureThead t = Inr t
       \<and> ensureHeaderRow t = t \<and> normalizeTable e t = Inr (cleanCellContent e t)
       \<and> (all_desc is_cell (childNodes t) = [] \<longrightarrow> normalizeTable e t = Inr t)"
  using assms no_rows_no_first_row[OF assms]
  by (auto simp: expandMergedCells_def promoteHeaderCells_def ensureThead_def ensureHeaderRow_def
       normalizeTable_def clean_no_cells)

theorem table_without_rows_witness:
  "table_rows bare_table = [] \<and> all_desc is_cell (childNodes bare_table) = []
   \<and> ensureHeaderRow bare_table = bare_table \<and> normalizeTable plain_env bare_table = Inr bare_table"
proof -
  have a: "table_rows bare_table = []" by code_simp
  have b: "all_desc is_cell (childNodes bare_table) = []" by code_simp
  from table_without_rows [OF a, of plain_env] a b show ?thesis by blast
qed

text \<open>
  A table whose caption holds another table has no row of its own, and the fifth step
  rewrites the cell of the inner table: the outer table does not stay unchanged.
\<close>

theorem table_without_rows_counterexample:
  "table_rows caption_table = []
   \<and> normalizeTable plain_env caption_table = Inr (Element ''table'' []
        [Element ''caption'' []
           [Element ''table'' []
              [Element ''tr'' []
                 [Element ''td'' []
                    [Text ''a'', Element ''br'' [] [], Text ''b'', Element ''br'' [] []]]]]])
   \<and> normalizeTable plain_env caption_table \<noteq> Inr caption_table"
  by code_simp

subsection \<open>Rows in place\<close>

lemma is_tag_on_children [simp]: "is_tag s (on_children f k) = is_tag s k"
  by (cases k) (auto simp: is_tag_def)

lemma childNodes_on_children [simp]: "is_element k \<Longrightarrow> childNodes (on_children f k) = f (childNodes k)"
  by (cases k) auto

lemma is_tag_is_element: "is_tag s k \<Longrightarrow> is_element k"
  by (simp add: is_tag_def)

lemma is_tag_unique: "is_tag s k \<Longrightarrow> is_tag s' k \<Longrightarrow> s = s'"
  by (simp add: is_tag_def)

lemma tr_children_on_children: "is_element k \<Longrightarrow> tr_children (on_children f k) = filter (is_tag ''tr'') (f (childNodes k))"
  by (simp add: tr_children_def)

lemma filter_subst_trs:
  "length rs = length (filter (is_tag ''tr'') cs) \<Longrightarrow> list_all (is_tag ''tr'') rs
     \<Longrightarrow> filter (is_tag ''tr'') (subst_trs cs rs) = rs"
proof (induction cs arbitrary: rs)
  case Nil
  then show ?case by simp
next
  case (Cons k ks)
  show ?case
  proof (cases "is_tag ''tr'' k")
    case True
    with Cons.prems obtain r rs' where rs: "rs = r # rs'" by (cases rs) auto
    with Cons True show ?thesis by simp
  next
    case False
    with Cons show ?thesis by simp
  qed
qed


lemma section_rows_Cons:
  "section_rows s (k # ks) = (if is_tag s k then tr_children k else []) @ section_rows s ks"
  by (simp add: section_rows_def)

lemma section_rows_Nil [simp]: "section_rows s [] = []"
  by (simp add: section_rows_def)

lemma body_rows_Cons:
  "body_rows (k # ks) = (if is_tag ''tr'' k then [k] else if is_tag ''tbody'' k then tr_children k else [])
      @ body_rows ks"
  by (simp add: body_rows_def)

lemma body_rows_Nil0 [simp]: "body_rows [] = []"
  by (simp add: body_rows_def)

lemma section_rows_subst_sections:
  "length rs = length (section_rows s kids) \<Longrightarrow> list_all (is_tag ''tr'') rs
     \<Longrightarrow> section_rows s (subst_sections s kids rs) = rs"
proof (induction kids arbitrary: rs)
  case Nil
  then show ?case by simp
next
  case (Cons k ks)
  show ?case
  proof (cases "is_tag s k")
    case True
    let ?n = "length (tr_children k)"
    from Cons.prems True have len: "length rs = ?n + length (section_rows s ks)"
      by (simp add: section_rows_Cons)
    have a: "tr_children (on_children (\<lambda>cs. subst_trs cs (take ?n rs)) k) = take ?n rs"
      using True len Cons.prems(2)
      by (simp add: tr_children_on_children is_tag_is_element filter_subst_trs tr_children_def[symmetric]
          list_all_iff) (metis filter_subst_trs in_set_takeD length_take list_all_iff min.absorb2 le_add1 tr_children_def)
    have b: "section_rows s (subst_sections s ks (drop ?n rs)) = drop ?n rs"
      using Cons.IH[of "drop ?n rs"] len Cons.prems(2)
      by (simp add: list_all_iff) (metis in_set_dropD)
    show ?thesis using True a b by (simp add: section_rows_Cons Let_def)
  next
    case False
    with Cons show ?thesis by (simp add: section_rows_Cons)
  qed
qed


lemma take_tr: "list_all (is_tag ''tr'') rs \<Longrightarrow> list_all (is_tag ''tr'') (take n rs)"
  by (auto simp: list_all_iff dest: in_set_takeD)

lemma drop_tr: "list_all (is_tag ''tr'') rs \<Longrightarrow> list_all (is_tag ''tr'') (drop n rs)"
  by (auto simp: list_all_iff dest: in_set_dropD)

lemma section_rows_subst_other:
  "s \<noteq> s' \<Longrightarrow> section_rows s' (subst_sections s kids rs) = section_rows s' kids"
  by (induction kids arbitrary: rs) (auto simp: section_rows_Cons Let_def dest: is_tag_unique)

lemma body_rows_subst_sections:
  "s \<noteq> ''tr'' \<Longrightarrow> s \<noteq> ''tbody'' \<Longrightarrow> body_rows (subst_sections s kids rs) = body_rows kids"
  by (induction kids arbitrary: rs) (auto simp: body_rows_Cons Let_def dest: is_tag_unique)

lemma body_rows_subst_body:
  "length rs = length (body_rows kids) \<Longrightarrow> list_all (is_tag ''tr'') rs
     \<Longrightarrow> body_rows (subst_body kids rs) = rs"
proof (induction kids arbitrary: rs)
  case Nil
  then show ?case by simp
next
  case (Cons k ks)
  show ?case
  proof (cases "is_tag ''tr'' k")
    case True
    with Cons.prems obtain r rs' where rs: "rs = r # rs'" by (cases rs) (auto simp: body_rows_Cons)
    with Cons True show ?thesis by (simp add: body_rows_Cons)
  next
    case False
    show ?thesis
    proof (cases "is_tag ''tbody'' k")
      case True
      let ?n = "length (tr_children k)"
      from Cons.prems True False have len: "length rs = ?n + length (body_rows ks)"
        by (simp add: body_rows_Cons)
      have "length (take ?n rs) = length (filter (is_tag ''tr'') (childNodes k))"
        using len by (simp add: tr_children_def)
      then have a: "tr_children (on_children (\<lambda>cs. subst_trs cs (take ?n rs)) k) = take ?n rs"
        using True Cons.prems(2)
        by (simp add: tr_children_on_children is_tag_is_element filter_subst_trs take_tr)
      have b: "body_rows (subst_body ks (drop ?n rs)) = drop ?n rs"
        using Cons.IH[of "drop ?n rs"] len Cons.prems(2) by (simp add: drop_tr)
      show ?thesis using True False a b by (simp add: body_rows_Cons Let_def)
    next
      case F2: False
      with False Cons show ?thesis by (simp add: body_rows_Cons)
    qed
  qed
qed

lemma section_rows_subst_body:
  "s \<noteq> ''tr'' \<Longrightarrow> s \<noteq> ''tbody'' \<Longrightarrow> list_all (is_tag ''tr'') rs
     \<Longrightarrow> section_rows s (subst_body kids rs) = section_rows s kids"
proof (induction kids arbitrary: rs)
  case Nil
  then show ?case by simp
next
  case (Cons k ks)
  show ?case
  proof (cases "is_tag ''tr'' k")
    case True
    then have nk: "\<not> is_tag s k" using Cons.prems(1) by (auto dest: is_tag_unique)
    show ?thesis
    proof (cases rs)
      case Nil
      with True nk Cons show ?thesis by (simp add: section_rows_Cons)
    next
      case (Cons r rs')
      then have "is_tag ''tr'' r" "list_all (is_tag ''tr'') rs'" using Cons.prems(3) by auto
      then have "\<not> is_tag s r" using Cons.prems(1) by (auto dest: is_tag_unique)
      with True nk Cons Cons.IH[of rs'] Cons.prems \<open>list_all (is_tag ''tr'') rs'\<close>
      show ?thesis by (simp add: section_rows_Cons)
    qed
  next
    case False
    show ?thesis
    proof (cases "is_tag ''tbody'' k")
      case True
      then have nk: "\<not> is_tag s k" using Cons.prems(2) by (auto dest: is_tag_unique)
      with True False Cons.IH[of "drop (length (tr_children k)) rs"] Cons.prems
      show ?thesis by (simp add: section_rows_Cons Let_def drop_tr)
    next
      case F2: False
      with False Cons show ?thesis by (simp add: section_rows_Cons)
    qed
  qed
qed

lemma table_rows_replace_rows:
  assumes len: "length rs = length (table_rows t)" and tr: "list_all (is_tag ''tr'') rs"
  shows "table_rows (replace_rows t rs) = rs"
proof (cases t)
  case (Text s)
  with len show ?thesis by (simp add: replace_rows_def table_rows_def head_rows_def foot_rows_def)
next
  case (Element tg a kids)
  let ?nh = "length (head_rows kids)" and ?nb = "length (body_rows kids)"
  let ?hs = "take ?nh rs" and ?bs = "take ?nb (drop ?nh rs)" and ?fs = "drop (?nh + ?nb) rs"
  let ?k1 = "subst_sections ''thead'' kids ?hs"
  let ?k2 = "subst_body ?k1 ?bs"
  let ?k3 = "subst_sections ''tfoot'' ?k2 ?fs"
  from len Element have L: "length rs = ?nh + ?nb + length (foot_rows kids)"
    by (simp add: table_rows_def)
  have h1: "section_rows ''thead'' ?k1 = ?hs"
    using L tr by (intro section_rows_subst_sections) (simp_all add: head_rows_def take_tr)
  have b1: "body_rows ?k1 = body_rows kids" by (simp add: body_rows_subst_sections)
  have f1: "section_rows ''tfoot'' ?k1 = section_rows ''tfoot'' kids"
    by (simp add: section_rows_subst_other)
  have trb: "list_all (is_tag ''tr'') ?bs" using tr by (simp add: take_tr drop_tr)
  have b2: "body_rows ?k2 = ?bs"
    using L trb by (intro body_rows_subst_body) (simp_all add: b1)
  have h2: "section_rows ''thead'' ?k2 = ?hs" using trb h1 by (simp add: section_rows_subst_body)
  have f2: "section_rows ''tfoot'' ?k2 = section_rows ''tfoot'' kids"
    using trb f1 by (simp add: section_rows_subst_body)
  have f3: "section_rows ''tfoot'' ?k3 = ?fs"
    using L tr by (intro section_rows_subst_sections) (simp_all add: f2 foot_rows_def drop_tr)
  have h3: "section_rows ''thead'' ?k3 = ?hs" using h2 by (simp add: section_rows_subst_other)
  have b3: "body_rows ?k3 = ?bs" using b2 by (simp add: body_rows_subst_sections)
  have "table_rows (replace_rows t rs) = ?hs @ ?bs @ ?fs"
    using Element h3 b3 f3 by (simp add: replace_rows_def table_rows_def head_rows_def foot_rows_def Let_def)
  also have "\<dots> = rs"
    by (metis append_take_drop_id drop_drop add.commute)
  finally show ?thesis .
qed


lemma grid_ok_put:
  assumes "grid_ok nrows m Q g" and "gr < nrows \<Longrightarrow> gc < m \<Longrightarrow> Q gr gc v"
  shows "grid_ok nrows m Q (put nrows m gr gc v g)"
proof (cases "gr < nrows \<and> gc < m")
  case False
  with assms(1) show ?thesis by (auto simp: put_def)
next
  case True
  then have q: "Q gr gc v" using assms(2) by simp
  from assms(1) have lg: "length g = nrows"
    and rows: "\<And>r. r < nrows \<Longrightarrow> length (g ! r) = m"
    and ent: "\<And>r c i. r < nrows \<Longrightarrow> c < m \<Longrightarrow> g ! r ! c = Some i \<Longrightarrow> Q r c i"
    by (auto simp: grid_ok_def)
  show ?thesis
    unfolding grid_ok_def
  proof (intro conjI allI impI)
    show "length (put nrows m gr gc v g) = nrows" using lg True by (simp add: put_def)
  next
    fix r assume "r < nrows"
    then show "length (put nrows m gr gc v g ! r) = m"
      using lg True rows by (cases "r = gr") (simp_all add: put_def)
  next
    fix r c i assume r: "r < nrows" and c: "c < m" and s: "put nrows m gr gc v g ! r ! c = Some i"
    show "Q r c i"
    proof (cases "r = gr \<and> c = gc")
      case True
      with s \<open>gr < nrows \<and> gc < m\<close> lg rows have "i = v" by (simp add: put_def)
      with True q show ?thesis by simp
    next
      case False
      with s \<open>gr < nrows \<and> gc < m\<close> lg rows r c have "g ! r ! c = Some i"
        by (cases "r = gr") (auto simp: put_def)
      with ent r c show ?thesis by blast
    qed
  qed
qed

lemma grid_ok_fold_put:
  assumes "grid_ok nrows m Q g"
    and "\<And>d. d \<in> set ds \<Longrightarrow> gr d < nrows \<Longrightarrow> gc d < m \<Longrightarrow> Q (gr d) (gc d) (v d)"
  shows "grid_ok nrows m Q (fold (\<lambda>d. put nrows m (gr d) (gc d) (v d)) ds g)"
  using assms
proof (induction ds arbitrary: g)
  case Nil
  then show ?case by simp
next
  case (Cons d ds)
  have "grid_ok nrows m Q (put nrows m (gr d) (gc d) (v d) g)"
    using Cons.prems by (intro grid_ok_put) auto
  then show ?case using Cons.prems(2) by (simp add: Cons.IH)
qed

lemma grid_ok_fold:
  assumes "grid_ok nrows m Q g" and "\<And>d g. d \<in> set ds \<Longrightarrow> grid_ok nrows m Q g \<Longrightarrow> grid_ok nrows m Q (f d g)"
  shows "grid_ok nrows m Q (fold f ds g)"
  using assms by (induction ds arbitrary: g) auto

lemma grid_ok_mark_span:
  assumes "grid_ok nrows m Q g"
    and "\<And>dr dc. dr < nat rowspan \<Longrightarrow> dc < nat colspan \<Longrightarrow> r + dr < nrows \<Longrightarrow> c + dc < m
          \<Longrightarrow> Q (r + dr) (c + dc) \<lparr>originRow = r, originCol = c, isOrigin = (dr = 0 \<and> dc = 0), cell = cl\<rparr>"
  shows "grid_ok nrows m Q (mark_span nrows m r c rowspan colspan cl g)"
  unfolding mark_span_def
proof (rule grid_ok_fold[OF assms(1)])
  fix dr g' assume dr: "dr \<in> set [0..<nat rowspan]" and g': "grid_ok nrows m Q g'"
  show "grid_ok nrows m Q (fold (\<lambda>dc. put nrows m (r + dr) (c + dc)
          \<lparr>originRow = r, originCol = c, isOrigin = (dr = 0 \<and> dc = 0), cell = cl\<rparr>) [0..<nat colspan] g')"
    using dr assms(2) by (intro grid_ok_fold_put[OF g']) auto
qed

lemma skip_filled_ge: "i \<le> skip_filled row m i"
proof (induction row m i rule: skip_filled.induct)
  case (1 row m i)
  show ?case
  proof (cases "i < int m \<and> entry_not_null row i")
    case True
    with 1 show ?thesis by (subst skip_filled.simps) auto
  next
    case False
    then show ?thesis by (subst skip_filled.simps) auto
  qed
qed

lemma skip_filled_nonneg: "0 \<le> skip_filled row m i"
proof (induction row m i rule: skip_filled.induct)
  case (1 row m i)
  show ?case
  proof (cases "i < int m \<and> entry_not_null row i")
    case True
    with 1 show ?thesis by (subst skip_filled.simps) auto
  next
    case False
    then have "skip_filled row m i = i" by (subst skip_filled.simps) auto
    moreover have "0 \<le> i"
    proof (rule ccontr)
      assume "\<not> 0 \<le> i"
      then have "i < int m" "entry_not_null row i" by (auto simp: entry_not_null_def)
      with False show False by simp
    qed
    ultimately show ?thesis by simp
  qed
qed

lemma grid_ok_place_cells:
  assumes "grid_ok nrows m (covers rows) g" and "r < length rows" and "set cs \<subseteq> set (cells_of (rows ! r))"
  shows "grid_ok nrows m (covers rows) (place_cells nrows m r cs idx g)"
  using assms
proof (induction cs arbitrary: idx g)
  case Nil
  then show ?case by simp
next
  case (Cons c cs)
  let ?i = "skip_filled (g ! r) m idx"
  show ?case
  proof (cases "?i \<ge> int m")
    case True
    with Cons.prems show ?thesis by (simp add: Let_def)
  next
    case False
    have nn: "0 \<le> ?i" by (rule skip_filled_nonneg)
    have "grid_ok nrows m (covers rows)
            (mark_span nrows m r (nat ?i) (span_attr c ''rowspan'') (span_attr c ''colspan'') (strip_spans c) g)"
    proof (rule grid_ok_mark_span[OF Cons.prems(1)])
      fix dr dc assume "dr < nat (span_attr c ''rowspan'')" "dc < nat (span_attr c ''colspan'')"
      then show "covers rows (r + dr) (nat ?i + dc)
          \<lparr>originRow = r, originCol = nat ?i, isOrigin = (dr = 0 \<and> dc = 0), cell = strip_spans c\<rparr>"
        using Cons.prems(2,3) by (auto simp: covers_def intro!: bexI[of _ c])
    qed
    then show ?thesis using False Cons.prems Cons.IH by (simp add: Let_def)
  qed
qed

lemma grid_ok_build_rows:
  assumes "grid_ok nrows m (covers rows) g" and "drop r rows = rs"
  shows "grid_ok nrows m (covers rows) (build_rows nrows m r rs g)"
  using assms
proof (induction rs arbitrary: r g)
  case Nil
  then show ?case by simp
next
  case (Cons row rs)
  from Cons.prems(2) have r: "r < length rows" by (metis drop_all list.distinct(1) not_le)
  from Cons.prems(2) have row: "rows ! r = row" by (metis nth_via_drop)
  from Cons.prems(2) have rest: "drop (Suc r) rows = rs" by (metis drop_Suc list.sel(3) tl_drop)
  have "grid_ok nrows m (covers rows) (place_cells nrows m r (cells_of row) 0 g)"
    using Cons.prems(1) r row by (intro grid_ok_place_cells) auto
  then show ?case using rest by (simp add: Cons.IH)
qed

lemma grid_ok_empty: "grid_ok nrows m Q (replicate nrows (replicate m None))"
  by (simp add: grid_ok_def)

lemma grid_ok_build_grid:
  "grid_ok (length (table_rows t)) (getMaxColumns t) (covers (table_rows t)) (build_grid t)"
  unfolding build_grid_def Let_def
  by (intro grid_ok_build_rows grid_ok_empty) simp

subsection \<open>Span expansion\<close>

lemma tr_children_tr: "row \<in> set (tr_children k) \<Longrightarrow> is_tag ''tr'' row"
  by (simp add: tr_children_def)

lemma table_rows_tr: "row \<in> set (table_rows t) \<Longrightarrow> is_tag ''tr'' row"
  by (auto simp: table_rows_def head_rows_def foot_rows_def section_rows_def body_rows_def
      dest: tr_children_tr split: if_splits)

lemma getAttribute_removeAttribute:
  "getAttribute (removeAttribute n k) k' = (if k' = k then None else getAttribute n k')"
proof (cases n)
  case (Text s)
  then show ?thesis by (simp add: getAttribute_def)
next
  case (Element t a cs)
  have "map_of (filter (\<lambda>(x, v). x \<noteq> k) a) k' = (if k' = k then None else map_of a k')"
    by (induction a) auto
  with Element show ?thesis by (simp add: getAttribute_def)
qed

lemma is_cell_removeAttribute [simp]: "is_cell (removeAttribute n k) = is_cell n"
  by (cases n) (auto simp: is_cell_def is_tag_def)

lemma strip_spans_props:
  "is_cell (strip_spans c) = is_cell c"
  "getAttribute (strip_spans c) ''colspan'' = None"
  "getAttribute (strip_spans c) ''rowspan'' = None"
  by (simp_all add: strip_spans_def getAttribute_removeAttribute)

lemma covers_cell:
  assumes "covers rows r c i"
  shows "is_cell (cell i)" "getAttribute (cell i) ''colspan'' = None" "getAttribute (cell i) ''rowspan'' = None"
proof -
  from assms obtain c0 where c0: "c0 \<in> set (cells_of (rows ! originRow i))" "cell i = strip_spans c0"
    by (auto simp: covers_def)
  then have "is_cell c0" by (simp add: cells_of_def)
  with c0 show "is_cell (cell i)" "getAttribute (cell i) ''colspan'' = None"
    "getAttribute (cell i) ''rowspan'' = None"
    by (simp_all add: strip_spans_props)
qed

lemma rebuild_cell_ok:
  assumes "\<And>i. x = Some i \<Longrightarrow> covers rows r c i"
  shows "is_cell (rebuild_cell x) \<and> getAttribute (rebuild_cell x) ''colspan'' = None
       \<and> getAttribute (rebuild_cell x) ''rowspan'' = None"
proof (cases x)
  case None
  then show ?thesis by (simp add: rebuild_cell_def is_cell_def is_tag_def getAttribute_def)
next
  case (Some i)
  from assms[OF Some] have a: "is_cell (cell i)" "getAttribute (cell i) ''colspan'' = None"
    "getAttribute (cell i) ''rowspan'' = None" by (rule covers_cell)+
  show ?thesis using Some a
    by (cases "cell i") (auto simp: rebuild_cell_def is_cell_def is_tag_def getAttribute_def)
qed

lemma cells_of_rebuild_row:
  assumes "is_element row" and "list_all is_cell cs"
  shows "cells_of (on_children (\<lambda>old. filter (\<lambda>n. \<not> is_cell n) old @ cs) row) = cs"
  using assms by (cases row) (auto simp: cells_of_def list_all_iff filter_id_conv)

lemma fold_max_width:
  "int (fold (\<lambda>row m. if row_width row > int m then nat (row_width row) else m) rows m0)
     = fold (\<lambda>row. max (row_width row)) rows (int m0)"
proof (induction rows arbitrary: m0)
  case Nil
  then show ?case by simp
next
  case (Cons row rows)
  show ?case
  proof (cases "row_width row > int m0")
    case True
    then have "max (row_width row) (int m0) = int (nat (row_width row))" by simp
    with True show ?thesis using Cons.IH[of "nat (row_width row)"] by simp
  next
    case False
    then have "max (row_width row) (int m0) = int m0" by simp
    with False show ?thesis using Cons.IH[of m0] by simp
  qed
qed

lemma getMaxColumns_Max: "int (getMaxColumns t) = Max (insert 0 (row_width ` set (table_rows t)))"
proof -
  have "Max (insert 0 (row_width ` set (table_rows t))) = Max (set (0 # map row_width (table_rows t)))"
    by simp
  also have "\<dots> = fold max (map row_width (table_rows t)) 0"
    by (rule Max.set_eq_fold)
  also have "\<dots> = fold (\<lambda>row. max (row_width row)) (table_rows t) 0"
    by (simp add: fold_map comp_def)
  finally show ?thesis
    using fold_max_width[of "table_rows t" 0] by (simp add: getMaxColumns_def)
qed

lemma table_rows_expand:
  "table_rows (rebuild_rows t) = map2 rebuild_row (table_rows t) (build_grid t)"
  unfolding rebuild_rows_def
proof (rule table_rows_replace_rows)
  have len: "length (build_grid t) = length (table_rows t)"
    using grid_ok_build_grid[of t] by (simp add: grid_ok_def)
  show "length (map2 rebuild_row (table_rows t) (build_grid t)) = length (table_rows t)"
    using len by simp
  show "list_all (is_tag ''tr'') (map2 rebuild_row (table_rows t) (build_grid t))"
    by (auto simp: list_all_iff rebuild_row_def dest!: set_zip_leftD table_rows_tr)
qed

lemma cells_of_expanded_row:
  assumes "r < length (table_rows t)"
  shows "cells_of (table_rows (rebuild_rows t) ! r) = map rebuild_cell (build_grid t ! r)"
proof -
  have ok: "grid_ok (length (table_rows t)) (getMaxColumns t) (covers (table_rows t)) (build_grid t)"
    by (rule grid_ok_build_grid)
  then have len: "length (build_grid t) = length (table_rows t)" by (simp add: grid_ok_def)
  have row: "table_rows (rebuild_rows t) ! r = rebuild_row (table_rows t ! r) (build_grid t ! r)"
    using assms len by (simp add: table_rows_expand)
  have el: "is_element (table_rows t ! r)"
    using assms table_rows_tr[of "table_rows t ! r" t] by (simp add: is_tag_is_element)
  have cells: "list_all is_cell (map rebuild_cell (build_grid t ! r))"
    unfolding list_all_iff
  proof
    fix x assume "x \<in> set (map rebuild_cell (build_grid t ! r))"
    then obtain c where c: "c < length (build_grid t ! r)" "x = rebuild_cell (build_grid t ! r ! c)"
      by (auto simp: in_set_conv_nth)
    with ok assms have "c < getMaxColumns t" by (simp add: grid_ok_def)
    with ok assms have "\<And>i. build_grid t ! r ! c = Some i \<Longrightarrow> covers (table_rows t) r c i"
      by (simp add: grid_ok_def)
    from rebuild_cell_ok[OF this] c show "is_cell x" by simp
  qed
  show ?thesis unfolding row rebuild_row_def using el cells by (rule cells_of_rebuild_row)
qed


lemma put_shape: "shape n m g \<Longrightarrow> shape n m (put n m gr gc v g)"
  by (auto simp: shape_def put_def nth_list_update)

lemma put_nth:
  assumes "shape n m g" "r < n" "c < m"
  shows "put n m gr gc v g ! r ! c = (if r = gr \<and> c = gc then Some v else g ! r ! c)"
  using assms by (auto simp: shape_def put_def nth_list_update)

lemma fold_put_cols:
  assumes "shape n m g"
  shows "shape n m (fold (\<lambda>dc. put n m gr (c0 + dc) (v dc)) [0..<k] g)
       \<and> (\<forall>r < n. \<forall>c < m. fold (\<lambda>dc. put n m gr (c0 + dc) (v dc)) [0..<k] g ! r ! c
             = (if r = gr \<and> c0 \<le> c \<and> c < c0 + k then Some (v (c - c0)) else g ! r ! c))"
proof (induction k)
  case 0
  with assms show ?case by auto
next
  case (Suc k)
  let ?g = "fold (\<lambda>dc. put n m gr (c0 + dc) (v dc)) [0..<k] g"
  from Suc have sh: "shape n m ?g"
    and nth: "\<forall>r < n. \<forall>c < m. ?g ! r ! c
             = (if r = gr \<and> c0 \<le> c \<and> c < c0 + k then Some (v (c - c0)) else g ! r ! c)" by simp_all
  have eq: "fold (\<lambda>dc. put n m gr (c0 + dc) (v dc)) [0..<Suc k] g = put n m gr (c0 + k) (v k) ?g"
    by simp
  have "shape n m (put n m gr (c0 + k) (v k) ?g)" using sh by (rule put_shape)
  moreover have "\<forall>r < n. \<forall>c < m. put n m gr (c0 + k) (v k) ?g ! r ! c
             = (if r = gr \<and> c0 \<le> c \<and> c < c0 + Suc k then Some (v (c - c0)) else g ! r ! c)"
  proof (intro allI impI)
    fix r c assume r: "r < n" and c: "c < m"
    have "put n m gr (c0 + k) (v k) ?g ! r ! c = (if r = gr \<and> c = c0 + k then Some (v k) else ?g ! r ! c)"
      using sh r c by (rule put_nth)
    also have "\<dots> = (if r = gr \<and> c0 \<le> c \<and> c < c0 + Suc k then Some (v (c - c0)) else g ! r ! c)"
      using nth r c by auto
    finally show "put n m gr (c0 + k) (v k) ?g ! r ! c
             = (if r = gr \<and> c0 \<le> c \<and> c < c0 + Suc k then Some (v (c - c0)) else g ! r ! c)" .
  qed
  ultimately show ?case unfolding eq by simp
qed

lemma fold_put_rows:
  assumes "shape n m g"
  shows "shape n m (fold (\<lambda>dr. fold (\<lambda>dc. put n m (r0 + dr) (c0 + dc) (v dr dc)) [0..<kc]) [0..<k] g)
       \<and> (\<forall>r < n. \<forall>c < m.
             fold (\<lambda>dr. fold (\<lambda>dc. put n m (r0 + dr) (c0 + dc) (v dr dc)) [0..<kc]) [0..<k] g ! r ! c
             = (if r0 \<le> r \<and> r < r0 + k \<and> c0 \<le> c \<and> c < c0 + kc
                then Some (v (r - r0) (c - c0)) else g ! r ! c))"
proof (induction k)
  case 0
  with assms show ?case by auto
next
  case (Suc k)
  let ?f = "\<lambda>dr. fold (\<lambda>dc. put n m (r0 + dr) (c0 + dc) (v dr dc)) [0..<kc]"
  let ?g = "fold ?f [0..<k] g"
  from Suc have sh: "shape n m ?g"
    and nth: "\<forall>r < n. \<forall>c < m. ?g ! r ! c
             = (if r0 \<le> r \<and> r < r0 + k \<and> c0 \<le> c \<and> c < c0 + kc
                then Some (v (r - r0) (c - c0)) else g ! r ! c)" by simp_all
  have eq: "fold ?f [0..<Suc k] g = ?f k ?g" by simp
  from fold_put_cols[OF sh, of "r0 + k" c0 "v k" kc]
  have sh': "shape n m (?f k ?g)"
    and nth': "\<forall>r < n. \<forall>c < m. ?f k ?g ! r ! c
             = (if r = r0 + k \<and> c0 \<le> c \<and> c < c0 + kc then Some (v k (c - c0)) else ?g ! r ! c)"
    by simp_all
  have "\<forall>r < n. \<forall>c < m. ?f k ?g ! r ! c
             = (if r0 \<le> r \<and> r < r0 + Suc k \<and> c0 \<le> c \<and> c < c0 + kc
                then Some (v (r - r0) (c - c0)) else g ! r ! c)"
  proof (intro allI impI)
    fix r c assume r: "r < n" and c: "c < m"
    have "?f k ?g ! r ! c = (if r = r0 + k \<and> c0 \<le> c \<and> c < c0 + kc then Some (v k (c - c0)) else ?g ! r ! c)"
      using nth' r c by simp
    also have "\<dots> = (if r0 \<le> r \<and> r < r0 + Suc k \<and> c0 \<le> c \<and> c < c0 + kc
                then Some (v (r - r0) (c - c0)) else g ! r ! c)"
      using nth r c by auto
    finally show "?f k ?g ! r ! c
             = (if r0 \<le> r \<and> r < r0 + Suc k \<and> c0 \<le> c \<and> c < c0 + kc
                then Some (v (r - r0) (c - c0)) else g ! r ! c)" .
  qed
  with sh' show ?case unfolding eq by simp
qed

lemma writer_snoc: "writer (ps @ [p]) r c = (if reaches p r c then Some p else writer ps r c)"
  by (simp add: writer_def)

lemma agrees_shape: "agrees n m ps g \<Longrightarrow> shape n m g"
  by (simp add: agrees_def shape_def)

lemma agrees_mark:
  assumes "agrees n m ps g"
  shows "agrees n m (ps @ [(r0, c0, cl)])
           (mark_span n m r0 c0 (span_attr cl ''rowspan'') (span_attr cl ''colspan'') (strip_spans cl) g)"
proof -
  let ?kr = "nat (span_attr cl ''rowspan'')" and ?kc = "nat (span_attr cl ''colspan'')"
  let ?v = "\<lambda>dr dc. \<lparr>originRow = r0, originCol = c0, isOrigin = (dr = 0 \<and> dc = 0), cell = strip_spans cl\<rparr>"
  let ?g = "mark_span n m r0 c0 (span_attr cl ''rowspan'') (span_attr cl ''colspan'') (strip_spans cl) g"
  have g: "?g = fold (\<lambda>dr. fold (\<lambda>dc. put n m (r0 + dr) (c0 + dc) (?v dr dc)) [0..<?kc]) [0..<?kr] g"
    by (simp add: mark_span_def)
  from fold_put_rows[OF agrees_shape[OF assms], of r0 c0 ?v ?kc ?kr]
  have sh: "shape n m ?g"
    and nth: "\<forall>r < n. \<forall>c < m. ?g ! r ! c
             = (if r0 \<le> r \<and> r < r0 + ?kr \<and> c0 \<le> c \<and> c < c0 + ?kc
                then Some (?v (r - r0) (c - c0)) else g ! r ! c)"
    unfolding g by simp_all
  show ?thesis unfolding agrees_def
  proof (intro conjI allI impI)
    show "length ?g = n" using sh by (simp add: shape_def)
    fix r assume r: "r < n"
    show "length (?g ! r) = m" using sh r by (simp add: shape_def)
    fix c assume c: "c < m"
    have reach: "reaches (r0, c0, cl) r c \<longleftrightarrow> r0 \<le> r \<and> r < r0 + ?kr \<and> c0 \<le> c \<and> c < c0 + ?kc"
      by (auto simp: reaches_def)
    have old: "g ! r ! c = map_option (entry r c) (writer ps r c)"
      using assms r c by (simp add: agrees_def)
    have at: "?g ! r ! c = (if r0 \<le> r \<and> r < r0 + ?kr \<and> c0 \<le> c \<and> c < c0 + ?kc
                then Some (?v (r - r0) (c - c0)) else g ! r ! c)"
      using nth r c by blast
    show "?g ! r ! c = map_option (entry r c) (writer (ps @ [(r0, c0, cl)]) r c)"
    proof (cases "reaches (r0, c0, cl) r c")
      case True
      then have in_span: "r0 \<le> r \<and> r < r0 + ?kr \<and> c0 \<le> c \<and> c < c0 + ?kc"
        using reach by simp
      then have "?g ! r ! c = Some (?v (r - r0) (c - c0))" unfolding at by simp
      moreover have "?v (r - r0) (c - c0) = entry r c (r0, c0, cl)"
        using in_span by (auto simp: entry_def)
      ultimately show ?thesis using True by (simp add: writer_snoc)
    next
      case False
      then have "\<not> (r0 \<le> r \<and> r < r0 + ?kr \<and> c0 \<le> c \<and> c < c0 + ?kc)"
        using reach by simp
      then have "?g ! r ! c = g ! r ! c" unfolding at by auto
      with False old show ?thesis by (simp add: writer_snoc)
    qed
  qed
qed

lemma skip_agrees:
  "agrees n m ps g \<Longrightarrow> r < n \<Longrightarrow> skip_filled (g ! r) m i = next_free ps r m i"
proof (induction ps r m i rule: next_free.induct)
  case (1 ps r m i)
  have test: "entry_not_null (g ! r) i \<longleftrightarrow> (i < 0 \<or> writer ps r (nat i) \<noteq> None)" if "i < int m"
  proof (cases "0 \<le> i")
    case True
    with that have c: "nat i < m" by simp
    with 1(2,3) have "length (g ! r) = m"
      and "g ! r ! nat i = map_option (entry r (nat i)) (writer ps r (nat i))"
      by (simp_all add: agrees_def)
    with True c show ?thesis by (simp add: entry_not_null_def)
  next
    case False
    then show ?thesis by (simp add: entry_not_null_def)
  qed
  show ?case
  proof (cases "i < int m \<and> (i < 0 \<or> writer ps r (nat i) \<noteq> None)")
    case True
    then have a: "skip_filled (g ! r) m i = skip_filled (g ! r) m (i + 1)"
      using test skip_filled.simps[of "g ! r" m i] by simp
    have b: "next_free ps r m i = next_free ps r m (i + 1)"
      using True next_free.simps[of ps r m i] by simp
    from 1(1)[OF True 1(2,3)] a b show ?thesis by simp
  next
    case False
    then have a: "skip_filled (g ! r) m i = i"
      using test skip_filled.simps[of "g ! r" m i] by auto
    have b: "next_free ps r m i = i"
      using False next_free.simps[of ps r m i] by auto
    from a b show ?thesis by simp
  qed
qed

lemma place_agrees:
  "agrees n m ps g \<Longrightarrow> r < n \<Longrightarrow> agrees n m (place_row m r cs i ps) (place_cells n m r cs i g)"
proof (induction cs arbitrary: i ps g)
  case Nil
  then show ?case by simp
next
  case (Cons c cs)
  let ?j = "next_free ps r m i"
  have skip: "skip_filled (g ! r) m i = ?j" using Cons.prems by (rule skip_agrees)
  show ?case
  proof (cases "?j \<ge> int m")
    case True
    with skip Cons.prems show ?thesis by (simp add: Let_def)
  next
    case False
    let ?g = "mark_span n m r (nat ?j) (span_attr c ''rowspan'') (span_attr c ''colspan'') (strip_spans c) g"
    have "agrees n m (ps @ [(r, nat ?j, c)]) ?g" using Cons.prems(1) by (rule agrees_mark)
    then have "agrees n m (place_row m r cs (?j + span_attr c ''colspan'') (ps @ [(r, nat ?j, c)]))
                 (place_cells n m r cs (?j + span_attr c ''colspan'') ?g)"
      using Cons.prems(2) by (rule Cons.IH)
    with False skip show ?thesis by (simp add: Let_def)
  qed
qed

lemma build_agrees:
  "agrees n m ps g \<Longrightarrow> r + length rows = n
     \<Longrightarrow> agrees n m (place_rows m r rows ps) (build_rows n m r rows g)"
proof (induction rows arbitrary: r ps g)
  case Nil
  then show ?case by simp
next
  case (Cons row rows)
  have "agrees n m (place_row m r (cells_of row) 0 ps) (place_cells n m r (cells_of row) 0 g)"
    using Cons.prems by (intro place_agrees) simp_all
  then have "agrees n m (place_rows m (Suc r) rows (place_row m r (cells_of row) 0 ps))
               (build_rows n m (Suc r) rows (place_cells n m r (cells_of row) 0 g))"
    using Cons.prems(2) by (intro Cons.IH) simp_all
  then show ?case by simp
qed

lemma agrees_build_grid:
  "agrees (length (table_rows t)) (getMaxColumns t) (placements t) (build_grid t)"
proof -
  have "agrees (length (table_rows t)) (getMaxColumns t) []
          (replicate (length (table_rows t)) (replicate (getMaxColumns t) None))"
    by (simp add: agrees_def writer_def)
  then show ?thesis unfolding placements_def build_grid_def Let_def
    by (rule build_agrees) simp
qed

lemma tag_of_strip_spans: "tag_of (strip_spans c) = tag_of c"
  by (cases c) (simp_all add: strip_spans_def)

lemma rebuild_cell_entry:
  "rebuild_cell (map_option (entry r c) (writer ps r c)) = expanded_cell ps r c"
  by (cases "writer ps r c")
     (auto simp: rebuild_cell_def expanded_cell_def entry_def tag_of_strip_spans)

lemma cells_of_rebuilt_row:
  assumes "r < length (table_rows t)"
  shows "cells_of (table_rows (rebuild_rows t) ! r)
           = map (expanded_cell (placements t) r) [0..<getMaxColumns t]"
proof -
  have ag: "agrees (length (table_rows t)) (getMaxColumns t) (placements t) (build_grid t)"
    by (rule agrees_build_grid)
  then have len: "length (build_grid t ! r) = getMaxColumns t"
    using assms by (simp add: agrees_def)
  have "map rebuild_cell (build_grid t ! r) = map (expanded_cell (placements t) r) [0..<getMaxColumns t]"
  proof (rule nth_equalityI)
    show "length (map rebuild_cell (build_grid t ! r))
            = length (map (expanded_cell (placements t) r) [0..<getMaxColumns t])"
      using len by simp
    fix c assume "c < length (map rebuild_cell (build_grid t ! r))"
    then have c: "c < getMaxColumns t" using len by simp
    with ag assms have "build_grid t ! r ! c
        = map_option (entry r c) (writer (placements t) r c)" by (simp add: agrees_def)
    then show "map rebuild_cell (build_grid t ! r) ! c
            = map (expanded_cell (placements t) r) [0..<getMaxColumns t] ! c"
      using c len by (simp add: rebuild_cell_entry)
  qed
  with cells_of_expanded_row[OF assms] show ?thesis by simp
qed

lemma expanded_cell_no_spans:
  "getAttribute (expanded_cell ps r c) ''colspan'' = None
   \<and> getAttribute (expanded_cell ps r c) ''rowspan'' = None"
proof (cases "writer ps r c")
  case None
  then show ?thesis by (simp add: expanded_cell_def getAttribute_def)
next
  case (Some p)
  obtain r0 c0 cl where p: "p = (r0, c0, cl)" by (cases p)
  have "getAttribute (Element (tag_of cl) (attrs_of (strip_spans cl)) []) k
          = getAttribute (strip_spans cl) k" for k
    by (simp add: getAttribute_def)
  with Some p show ?thesis by (simp add: expanded_cell_def strip_spans_props)
qed

text \<open>
  Claim C1, amended. Let the table have fewer than \<open>2^32\<close> rows, every row fewer than
  \<open>2^20\<close> cells and every span a size below \<open>2^32\<close>. \<open>getMaxColumns\<close> is the largest row
  width (the sum over the cells of \<open>parseInt(colspan) || 1\<close>), and at least 0. If it is
  \<open>2^32\<close> or more the step throws a \<open>RangeError\<close> and changes nothing. Otherwise the table
  has as many rows as before, each with exactly \<open>getMaxColumns\<close> cells, none with a
  \<open>colspan\<close> or \<open>rowspan\<close> attribute, and the cell at each position is fixed by the spans
  of the source: the cells are placed row by row, each at the next column of its row
  that no span placed before reaches; a position holds the cell placed there without its
  span attributes, at any other position that spans reach an empty cell with the tag
  and the attributes of the last placed cell whose span reaches it, and an empty \<open>td\<close>
  where no span reaches.
\<close>

theorem span_expansion:
  assumes "spans_exact t"
  shows "int (getMaxColumns t) = Max (insert 0 (row_width ` set (table_rows t)))
       \<and> (2 ^ 32 \<le> int (getMaxColumns t) \<longrightarrow> expandMergedCells t = Inl (Error range_message))
       \<and> (int (getMaxColumns t) < 2 ^ 32 \<longrightarrow>
            (\<exists>t'. expandMergedCells t = Inr t'
                 \<and> length (table_rows t') = length (table_rows t)
                 \<and> (\<forall>r < length (table_rows t).
                       cells_of (table_rows t' ! r)
                         = map (expanded_cell (placements t) r) [0..<getMaxColumns t])
                 \<and> (\<forall>row \<in> set (table_rows t').
                       length (cells_of row) = getMaxColumns t
                     \<and> (\<forall>c \<in> set (cells_of row).
                           getAttribute c ''colspan'' = None \<and> getAttribute c ''rowspan'' = None))))"
proof (intro conjI impI)
  show "int (getMaxColumns t) = Max (insert 0 (row_width ` set (table_rows t)))"
    by (rule getMaxColumns_Max)
next
  assume big: "2 ^ 32 \<le> int (getMaxColumns t)"
  then have "getMaxColumns t \<noteq> 0" by auto
  then have "table_rows t \<noteq> []" by (auto simp: getMaxColumns_def)
  with big show "expandMergedCells t = Inl (Error range_message)"
    by (simp add: expandMergedCells_def)
next
  assume small: "int (getMaxColumns t) < 2 ^ 32"
  show "\<exists>t'. expandMergedCells t = Inr t'
                 \<and> length (table_rows t') = length (table_rows t)
                 \<and> (\<forall>r < length (table_rows t).
                       cells_of (table_rows t' ! r)
                         = map (expanded_cell (placements t) r) [0..<getMaxColumns t])
                 \<and> (\<forall>row \<in> set (table_rows t').
                       length (cells_of row) = getMaxColumns t
                     \<and> (\<forall>c \<in> set (cells_of row).
                           getAttribute c ''colspan'' = None \<and> getAttribute c ''rowspan'' = None))"
  proof (cases "table_rows t = []")
    case True
    then have "expandMergedCells t = Inr t" by (simp add: expandMergedCells_def)
    with True show ?thesis by simp
  next
    case False
    let ?t = "rebuild_rows t"
    have e: "expandMergedCells t = Inr ?t" using False small by (simp add: expandMergedCells_def)
    have len: "length (table_rows ?t) = length (table_rows t)"
      using agrees_build_grid[of t] by (simp add: table_rows_expand agrees_def)
    have cells: "\<forall>r < length (table_rows t).
                       cells_of (table_rows ?t ! r)
                         = map (expanded_cell (placements t) r) [0..<getMaxColumns t]"
      by (simp add: cells_of_rebuilt_row)
    have rows: "\<forall>row \<in> set (table_rows ?t).
                       length (cells_of row) = getMaxColumns t
                     \<and> (\<forall>c \<in> set (cells_of row).
                           getAttribute c ''colspan'' = None \<and> getAttribute c ''rowspan'' = None)"
    proof
      fix row assume "row \<in> set (table_rows ?t)"
      then obtain r where r: "r < length (table_rows t)" and row: "row = table_rows ?t ! r"
        using len by (auto simp: in_set_conv_nth)
      from cells r row have c: "cells_of row = map (expanded_cell (placements t) r) [0..<getMaxColumns t]"
        by simp
      show "length (cells_of row) = getMaxColumns t
                     \<and> (\<forall>c \<in> set (cells_of row).
                           getAttribute c ''colspan'' = None \<and> getAttribute c ''rowspan'' = None)"
        unfolding c using expanded_cell_no_spans by auto
    qed
    show ?thesis by (rule exI[of _ ?t]) (intro conjI e len cells rows)
  qed
qed

theorem span_expansion_witness:
  "spans_exact colspan_table \<and> getMaxColumns colspan_table = 3
   \<and> (\<exists>t'. expandMergedCells colspan_table = Inr t'
          \<and> cells_of (table_rows t' ! 0)
              = [Element ''td'' [] [Text ''A''], Element ''td'' [] [], Element ''td'' [] [Text ''B'']])"
proof -
  have a: "spans_exact colspan_table" by code_simp
  have m: "getMaxColumns colspan_table = 3" by code_simp
  have n: "length (table_rows colspan_table) = 2" by code_simp
  have e: "map (expanded_cell (placements colspan_table) 0) [0..<3]
             = [Element ''td'' [] [Text ''A''], Element ''td'' [] [], Element ''td'' [] [Text ''B'']]"
    by code_simp
  have small: "int (getMaxColumns colspan_table) < 2 ^ 32" unfolding m by simp
  note ex = span_expansion [OF a, THEN conjunct2, THEN conjunct2, THEN mp, OF small]
  from ex obtain t' where t': "expandMergedCells colspan_table = Inr t'"
    and c: "\<forall>r < length (table_rows colspan_table).
              cells_of (table_rows t' ! r)
                = map (expanded_cell (placements colspan_table) r) [0..<getMaxColumns colspan_table]"
    by (elim conjE exE)
  from c n have "cells_of (table_rows t' ! 0)
                = map (expanded_cell (placements colspan_table) 0) [0..<getMaxColumns colspan_table]"
    by simp
  then have c0: "cells_of (table_rows t' ! 0)
              = [Element ''td'' [] [Text ''A''], Element ''td'' [] [], Element ''td'' [] [Text ''B'']]"
    unfolding m e .
  have "\<exists>t'. expandMergedCells colspan_table = Inr t'
          \<and> cells_of (table_rows t' ! 0)
              = [Element ''td'' [] [Text ''A''], Element ''td'' [] [], Element ''td'' [] [Text ''B'']]"
    by (rule exI[of _ t']) (rule conjI[OF t' c0])
  with a m show ?thesis by simp
qed

text \<open>
  The claim as stated fails where spans overlap. In \<open>overlap_table\<close> the header cell at
  row 0, column 1 spans two rows, so its span reaches row 1, column 1; the cell of row 1
  spans two columns and marks that position after it. The rebuilt row 1 holds an empty
  \<open>td\<close> there, not an empty \<open>th\<close>.
\<close>

theorem span_overlap_counterexample:
  "spans_exact overlap_table
   \<and> tag_of (cells_of (table_rows overlap_table ! 0) ! 1) = ''th''
   \<and> reaches (0, 1, cells_of (table_rows overlap_table ! 0) ! 1) 1 1
   \<and> expandMergedCells overlap_table
       = Inr (Element ''table'' []
           [Element ''tr'' [] [Element ''td'' [] [Text ''a''], Element ''th'' [] [Text ''h'']],
            Element ''tr'' [] [Element ''td'' [] [Text ''b''], Element ''td'' [] []]])"
  by code_simp


subsection \<open>The first row\<close>

lemma index_where_Some:
  "index_where P xs = Some i \<Longrightarrow> i < length xs \<and> P (xs ! i) \<and> (\<forall>x \<in> set (take i xs). \<not> P x)"
proof (induction xs arbitrary: i)
  case Nil
  then show ?case by simp
next
  case (Cons x xs)
  show ?case
  proof (cases "P x")
    case True
    with Cons.prems show ?thesis by simp
  next
    case False
    with Cons.prems obtain j where j: "index_where P xs = Some j" "i = Suc j" by auto
    with Cons.IH[OF j(1)] False show ?thesis by simp
  qed
qed

lemma index_where_exists: "\<exists>x \<in> set xs. P x \<Longrightarrow> \<exists>i. index_where P xs = Some i"
  by (induction xs) auto

lemma first_tr_Some:
  assumes "first_tr k = Some j"
  shows "j < length (childNodes k)" "is_tag ''tr'' (childNodes k ! j)"
    "filter (is_tag ''tr'') (take j (childNodes k)) = []"
    "tr_children k = (childNodes k ! j) # filter (is_tag ''tr'') (drop (Suc j) (childNodes k))"
proof -
  from index_where_Some[OF assms[unfolded first_tr_def]]
  have a: "j < length (childNodes k)" and b: "is_tag ''tr'' (childNodes k ! j)"
    and c: "\<forall>x \<in> set (take j (childNodes k)). \<not> is_tag ''tr'' x" by auto
  show "j < length (childNodes k)" by (rule a)
  show "is_tag ''tr'' (childNodes k ! j)" by (rule b)
  show d: "filter (is_tag ''tr'') (take j (childNodes k)) = []" using c by (simp add: filter_empty_conv)
  have "childNodes k = take j (childNodes k) @ (childNodes k ! j) # drop (Suc j) (childNodes k)"
    using a by (simp add: id_take_nth_drop)
  then have "tr_children k = filter (is_tag ''tr'') (take j (childNodes k) @ (childNodes k ! j) # drop (Suc j) (childNodes k))"
    by (simp add: tr_children_def)
  then show "tr_children k = (childNodes k ! j) # filter (is_tag ''tr'') (drop (Suc j) (childNodes k))"
    using b d by simp
qed

lemma section_rows_append: "section_rows s (xs @ ys) = section_rows s xs @ section_rows s ys"
  by (simp add: section_rows_def)

lemma body_rows_append: "body_rows (xs @ ys) = body_rows xs @ body_rows ys"
  by (simp add: body_rows_def)

lemma section_rows_none: "\<forall>x \<in> set xs. \<not> (is_tag s x \<and> first_tr x \<noteq> None) \<Longrightarrow> section_rows s xs = []"
  by (induction xs) (auto simp: section_rows_Cons first_tr_None)

lemma body_rows_none:
  "\<forall>x \<in> set xs. \<not> (is_tag ''tr'' x \<or> (is_tag ''tbody'' x \<and> first_tr x \<noteq> None)) \<Longrightarrow> body_rows xs = []"
  by (induction xs) (auto simp: body_rows_Cons first_tr_None)

lemma tr_children_remove:
  assumes "first_tr k = Some j"
  shows "tr_children (on_children (remove_at [j]) k) = tl (tr_children k)"
proof -
  have el: "is_element k" using first_tr_Some(1)[OF assms] by (cases k) auto
  have "filter (is_tag ''tr'') (take j (childNodes k) @ drop (Suc j) (childNodes k))
      = filter (is_tag ''tr'') (drop (Suc j) (childNodes k))"
    using first_tr_Some(3)[OF assms] by simp
  then show ?thesis using el first_tr_Some(4)[OF assms]
    by (simp add: tr_children_on_children)
qed

lemma section_first_row:
  assumes "section_rows s kids = r # rs"
  shows "\<exists>i j. section_row_path s kids = Some [i, j] \<and> i < length kids \<and> is_tag s (kids ! i)
           \<and> get_at kids [i, j] = Some r
           \<and> section_rows s (remove_at [i, j] kids) = rs
           \<and> (\<forall>s'. s' \<noteq> s \<longrightarrow> section_rows s' (remove_at [i, j] kids) = section_rows s' kids)
           \<and> (s \<noteq> ''tr'' \<longrightarrow> s \<noteq> ''tbody'' \<longrightarrow> body_rows (remove_at [i, j] kids) = body_rows kids)"
proof -
  let ?P = "\<lambda>k. is_tag s k \<and> first_tr k \<noteq> None"
  have "\<exists>x \<in> set kids. ?P x"
  proof (rule ccontr)
    assume "\<not> (\<exists>x \<in> set kids. ?P x)"
    then have "\<forall>x \<in> set kids. \<not> ?P x" by simp
    then have "section_rows s kids = []" by (rule section_rows_none)
    with assms show False by simp
  qed
  from index_where_exists[of kids ?P, OF this]
  obtain i where i: "index_where ?P kids = Some i" ..
  note iw = index_where_Some[OF i]
  have il: "i < length kids" using iw by (rule conjunct1)
  have pki: "?P (kids ! i)" using iw by simp
  have pk: "is_tag s (kids ! i)" and ft: "first_tr (kids ! i) \<noteq> None" using pki by simp_all
  have pre: "\<forall>x \<in> set (take i kids). \<not> ?P x" using iw by simp
  from ft obtain j where j: "first_tr (kids ! i) = Some j" by auto
  let ?k = "kids ! i"
  have split: "kids = take i kids @ ?k # drop (Suc i) kids" using il by (simp add: id_take_nth_drop)
  have pre0: "section_rows s (take i kids) = []" using pre by (rule section_rows_none)
  have rows: "section_rows s kids = tr_children ?k @ section_rows s (drop (Suc i) kids)"
    using pk pre0 by (subst split) (simp add: section_rows_append section_rows_Cons)
  have r: "r = childNodes ?k ! j" and rs: "rs = tl (tr_children ?k) @ section_rows s (drop (Suc i) kids)"
    using assms rows first_tr_Some(4)[OF j] by auto
  have path: "section_row_path s kids = Some [i, j]" using i j by (simp add: section_row_path_def)
  have get: "get_at kids [i, j] = Some r" using il r first_tr_Some(1)[OF j] by simp
  let ?k' = "on_children (remove_at [j]) ?k"
  have rem: "remove_at [i, j] kids = take i kids @ ?k' # drop (Suc i) kids"
    using il by (simp add: upd_conv_take_nth_drop)
  have rows': "section_rows s (remove_at [i, j] kids) = rs"
    unfolding rem using pk pre0 rs tr_children_remove[OF j]
    by (simp add: section_rows_append section_rows_Cons)
  have other: "\<forall>s'. s' \<noteq> s \<longrightarrow> section_rows s' (remove_at [i, j] kids) = section_rows s' kids"
  proof (intro allI impI)
    fix s' assume "s' \<noteq> s"
    then have "\<not> is_tag s' ?k" using pk by (auto dest: is_tag_unique)
    then have "section_rows s' (take i kids @ ?k' # drop (Suc i) kids)
             = section_rows s' (take i kids @ ?k # drop (Suc i) kids)"
      by (simp add: section_rows_append section_rows_Cons)
    then show "section_rows s' (remove_at [i, j] kids) = section_rows s' kids"
      using rem split by simp
  qed
  have body: "s \<noteq> ''tr'' \<longrightarrow> s \<noteq> ''tbody'' \<longrightarrow> body_rows (remove_at [i, j] kids) = body_rows kids"
  proof (intro impI)
    assume "s \<noteq> ''tr''" "s \<noteq> ''tbody''"
    then have "\<not> is_tag ''tr'' ?k" "\<not> is_tag ''tbody'' ?k" using pk by (auto dest: is_tag_unique)
    then have "body_rows (take i kids @ ?k' # drop (Suc i) kids)
             = body_rows (take i kids @ ?k # drop (Suc i) kids)"
      by (simp add: body_rows_append body_rows_Cons)
    then show "body_rows (remove_at [i, j] kids) = body_rows kids" using rem split by simp
  qed
  show ?thesis using path il pk get rows' other body by blast
qed

lemma body_first_row:
  assumes "body_rows kids = r # rs"
  shows "\<exists>p. body_row_path kids = Some p \<and> get_at kids p = Some r
           \<and> (length p = 2 \<longrightarrow> is_tag ''tbody'' (kids ! hd p))
           \<and> p \<noteq> []
           \<and> body_rows (remove_at p kids) = rs
           \<and> (\<forall>s. s \<noteq> ''tr'' \<longrightarrow> s \<noteq> ''tbody'' \<longrightarrow> section_rows s (remove_at p kids) = section_rows s kids)"
proof -
  let ?P = "\<lambda>k. is_tag ''tr'' k \<or> (is_tag ''tbody'' k \<and> first_tr k \<noteq> None)"
  have "\<exists>x \<in> set kids. ?P x"
  proof (rule ccontr)
    assume "\<not> (\<exists>x \<in> set kids. ?P x)"
    then have "\<forall>x \<in> set kids. \<not> ?P x" by simp
    then have "body_rows kids = []" by (rule body_rows_none)
    with assms show False by simp
  qed
  from index_where_exists[of kids ?P, OF this]
  obtain i where i: "index_where ?P kids = Some i" ..
  note iw = index_where_Some[OF i]
  have il: "i < length kids" using iw by (rule conjunct1)
  have pk: "?P (kids ! i)" using iw by simp
  have pre: "\<forall>x \<in> set (take i kids). \<not> ?P x" using iw by simp
  let ?k = "kids ! i"
  have split: "kids = take i kids @ ?k # drop (Suc i) kids" using il by (simp add: id_take_nth_drop)
  have pre0: "body_rows (take i kids) = []" using pre by (rule body_rows_none)
  show ?thesis
  proof (cases "is_tag ''tr'' ?k")
    case True
    have rows: "body_rows kids = ?k # body_rows (drop (Suc i) kids)"
      using True pre0 by (subst split) (simp add: body_rows_append body_rows_Cons)
    with assms have r: "r = ?k" and rs: "rs = body_rows (drop (Suc i) kids)" by auto
    have path: "body_row_path kids = Some [i]" using i True by (simp add: body_row_path_def)
    have rem: "remove_at [i] kids = take i kids @ drop (Suc i) kids" by simp
    have a: "body_rows (remove_at [i] kids) = rs" unfolding rem using pre0 rs by (simp add: body_rows_append)
    have b: "\<forall>s. s \<noteq> ''tr'' \<longrightarrow> s \<noteq> ''tbody'' \<longrightarrow> section_rows s (remove_at [i] kids) = section_rows s kids"
    proof (intro allI impI)
      fix s assume "s \<noteq> ''tr''" "s \<noteq> ''tbody''"
      then have "\<not> is_tag s ?k" using True by (auto dest: is_tag_unique)
      then have "section_rows s (take i kids @ drop (Suc i) kids)
               = section_rows s (take i kids @ ?k # drop (Suc i) kids)"
        by (simp add: section_rows_append section_rows_Cons)
      then show "section_rows s (remove_at [i] kids) = section_rows s kids" using rem split by simp
    qed
    show ?thesis using path il r a b by (intro exI[of _ "[i]"]) simp
  next
    case False
    with pk have tb: "is_tag ''tbody'' ?k" and ft: "first_tr ?k \<noteq> None" by auto
    from ft obtain j where j: "first_tr ?k = Some j" by auto
    have rows: "body_rows kids = tr_children ?k @ body_rows (drop (Suc i) kids)"
      using False tb pre0 by (subst split) (simp add: body_rows_append body_rows_Cons)
    have r: "r = childNodes ?k ! j" and rs: "rs = tl (tr_children ?k) @ body_rows (drop (Suc i) kids)"
      using assms rows first_tr_Some(4)[OF j] by auto
    have path: "body_row_path kids = Some [i, j]" using i j False by (simp add: body_row_path_def)
    have get: "get_at kids [i, j] = Some r" using il r first_tr_Some(1)[OF j] by simp
    let ?k' = "on_children (remove_at [j]) ?k"
    have rem: "remove_at [i, j] kids = take i kids @ ?k' # drop (Suc i) kids"
      using il by (simp add: upd_conv_take_nth_drop)
    have a: "body_rows (remove_at [i, j] kids) = rs"
      unfolding rem using False tb pre0 rs tr_children_remove[OF j]
      by (simp add: body_rows_append body_rows_Cons)
    have b: "\<forall>s. s \<noteq> ''tr'' \<longrightarrow> s \<noteq> ''tbody'' \<longrightarrow> section_rows s (remove_at [i, j] kids) = section_rows s kids"
    proof (intro allI impI)
      fix s assume "s \<noteq> ''tr''" "s \<noteq> ''tbody''"
      then have "\<not> is_tag s ?k" using tb by (auto dest: is_tag_unique)
      then have "section_rows s (take i kids @ ?k' # drop (Suc i) kids)
               = section_rows s (take i kids @ ?k # drop (Suc i) kids)"
        by (simp add: section_rows_append section_rows_Cons)
      then show "section_rows s (remove_at [i, j] kids) = section_rows s kids" using rem split by simp
    qed
    show ?thesis using path get tb a b by (intro exI[of _ "[i, j]"]) simp
  qed
qed

subsection \<open>Header synthesis\<close>

lemma first_desc_None_find_path: "first_desc P ns = None \<Longrightarrow> find_path_from P i ns = None"
  by (induction P ns arbitrary: i rule: first_desc.induct) (auto split: if_splits option.splits)

lemma section_row_path_None: "section_rows s kids = [] \<Longrightarrow> section_row_path s kids = None"
proof -
  assume "section_rows s kids = []"
  then have "\<forall>k \<in> set kids. \<not> (is_tag s k \<and> first_tr k \<noteq> None)"
    by (auto simp: section_rows_def first_tr_None)
  then have "index_where (\<lambda>k. is_tag s k \<and> first_tr k \<noteq> None) kids = None"
    by (simp add: index_where_None)
  then show ?thesis by (simp add: section_row_path_def)
qed

lemma body_row_path_None: "body_rows kids = [] \<Longrightarrow> body_row_path kids = None"
proof -
  assume "body_rows kids = []"
  then have "\<forall>k \<in> set kids. \<not> (is_tag ''tr'' k \<or> (is_tag ''tbody'' k \<and> first_tr k \<noteq> None))"
    by (simp add: body_rows_Nil first_tr_None)
  then have "index_where (\<lambda>k. is_tag ''tr'' k \<or> (is_tag ''tbody'' k \<and> first_tr k \<noteq> None)) kids = None"
    by (simp add: index_where_None)
  then show ?thesis by (simp add: body_row_path_def)
qed

lemma first_row_props:
  assumes "rows3 kids = r # rs"
  shows "\<exists>p. first_row_path kids = Some p \<and> get_at kids p = Some r \<and> p \<noteq> []
           \<and> rows3 (remove_at p kids) = rs
           \<and> ((length p = 2 \<and> is_tag ''thead'' (kids ! hd p)) \<longleftrightarrow> head_rows kids \<noteq> [])"
proof (cases "head_rows kids")
  case (Cons h hs)
  then have sr: "section_rows ''thead'' kids = h # hs" by (simp add: head_rows_def)
  from section_first_row[OF sr] obtain i j where
    p: "section_row_path ''thead'' kids = Some [i, j]" and il: "i < length kids"
    and tg: "is_tag ''thead'' (kids ! i)" and g: "get_at kids [i, j] = Some h"
    and a: "section_rows ''thead'' (remove_at [i, j] kids) = hs"
    and b: "\<forall>s'. s' \<noteq> ''thead'' \<longrightarrow> section_rows s' (remove_at [i, j] kids) = section_rows s' kids"
    and c: "body_rows (remove_at [i, j] kids) = body_rows kids" by auto
  from b have f: "section_rows ''tfoot'' (remove_at [i, j] kids) = section_rows ''tfoot'' kids" by simp
  from assms Cons have r: "r = h" and rs: "rs = hs @ body_rows kids @ foot_rows kids"
    by (simp_all add: rows3_def)
  have "first_row_path kids = Some [i, j]" using p by (simp add: first_row_path_def)
  moreover have "rows3 (remove_at [i, j] kids) = rs"
    using a c f rs by (simp add: rows3_def head_rows_def foot_rows_def)
  ultimately show ?thesis using g r tg Cons by (intro exI[of _ "[i, j]"]) simp
next
  case Nil
  then have hp: "section_row_path ''thead'' kids = None"
    by (simp add: head_rows_def section_row_path_None)
  show ?thesis
  proof (cases "body_rows kids")
    case (Cons b bs)
    from body_first_row[OF Cons] obtain p where
      p: "body_row_path kids = Some p" and g: "get_at kids p = Some b"
      and tb: "length p = 2 \<longrightarrow> is_tag ''tbody'' (kids ! hd p)" and ne: "p \<noteq> []"
      and a: "body_rows (remove_at p kids) = bs"
      and o: "\<forall>s. s \<noteq> ''tr'' \<longrightarrow> s \<noteq> ''tbody'' \<longrightarrow> section_rows s (remove_at p kids) = section_rows s kids"
      by auto
    from o have oh: "section_rows ''thead'' (remove_at p kids) = section_rows ''thead'' kids"
      and of': "section_rows ''tfoot'' (remove_at p kids) = section_rows ''tfoot'' kids" by simp_all
    from assms Nil Cons have r: "r = b" and rs: "rs = bs @ foot_rows kids" by (simp_all add: rows3_def)
    have fp: "first_row_path kids = Some p" using hp p by (simp add: first_row_path_def)
    have rr: "rows3 (remove_at p kids) = rs"
      using a oh of' rs Nil by (simp add: rows3_def head_rows_def foot_rows_def)
    have nt: "\<not> (length p = 2 \<and> is_tag ''thead'' (kids ! hd p))"
      using tb by (auto dest: is_tag_unique)
    show ?thesis using fp g r ne rr nt Nil by (intro exI[of _ p]) simp
  next
    case bn: Nil
    then have bp: "body_row_path kids = None" by (simp add: body_row_path_None)
    from assms Nil bn have sr: "section_rows ''tfoot'' kids = r # rs"
      by (simp add: rows3_def foot_rows_def)
    from section_first_row[OF sr] obtain i j where
      p: "section_row_path ''tfoot'' kids = Some [i, j]" and il: "i < length kids"
      and tg: "is_tag ''tfoot'' (kids ! i)" and g: "get_at kids [i, j] = Some r"
      and a: "section_rows ''tfoot'' (remove_at [i, j] kids) = rs"
      and b: "\<forall>s'. s' \<noteq> ''tfoot'' \<longrightarrow> section_rows s' (remove_at [i, j] kids) = section_rows s' kids"
      and c: "body_rows (remove_at [i, j] kids) = body_rows kids" by auto
    from b have h: "section_rows ''thead'' (remove_at [i, j] kids) = section_rows ''thead'' kids" by simp
    have fp: "first_row_path kids = Some [i, j]" using hp bp p by (simp add: first_row_path_def)
    have rr: "rows3 (remove_at [i, j] kids) = rs"
      using a c h Nil bn by (simp add: rows3_def head_rows_def foot_rows_def)
    have nt: "\<not> is_tag ''thead'' (kids ! i)" using tg by (auto dest: is_tag_unique)
    show ?thesis using fp g rr nt Nil by (intro exI[of _ "[i, j]"]) simp
  qed
qed

lemma remove_at_Suc: "p \<noteq> [] \<Longrightarrow> remove_at (Suc (hd p) # tl p) (x # xs) = x # remove_at p xs"
proof (cases p)
  case Nil
  assume "p \<noteq> []" with Nil show ?thesis by simp
next
  case (Cons i q)
  show ?thesis by (cases q) (simp_all add: Cons)
qed

lemma rows3_new_thead: "is_tag ''tr'' h \<Longrightarrow> rows3 (Element ''thead'' [] [h] # kids) = h # rows3 kids"
  by (simp add: rows3_def head_rows_def foot_rows_def section_rows_Cons body_rows_Cons
      is_tag_def tr_children_def)

lemma table_rows_rows3: "table_rows t = rows3 (childNodes t)"
  by (simp add: table_rows_def rows3_def)

lemma synthetic_header_tr: "is_tag ''tr'' (synthetic_header cs)"
  by (simp add: synthetic_header_def is_tag_def)

lemma cells_of_synthetic_header:
  "cells_of (synthetic_header cs)
   = map (\<lambda>(i, c). Element ''th'' [] (set_text (header_label i c))) (zip [0..<length cs] cs)"
proof -
  have "\<forall>x \<in> set (map (\<lambda>(i, c). Element ''th'' [] (set_text (header_label i c))) (zip [0..<length cs] cs)). is_cell x"
    by (auto simp: is_cell_def is_tag_def)
  then show ?thesis by (simp add: synthetic_header_def cells_of_def filter_id_conv)
qed

lemma header_label_nonempty: "header_label i c \<noteq> []"
  by (auto simp: header_label_def looksLikeHeader_def Let_def)

text \<open>
  Claim C3, amended. Let the first row of a table hold at least one cell and no \<open>th\<close>
  cell, and let no \<open>thead\<close> element stand below the table. Then the header step puts a
  new \<open>thead\<close> in front of the table's children, holding one new row; that row is the
  first row of the result and has one \<open>th\<close> per cell of the old first row, labelled with
  the trimmed text of that cell when the text is non-empty, shorter than 50 characters
  and the cell holds no \<open>img\<close>, \<open>pre\<close>, \<open>code\<close> or \<open>table\<close>, and with \<open>Column N\<close> otherwise
  (\<open>N\<close> counted from 1). The old first row is removed when every one of its cells
  qualified, and stays, as the second row, otherwise; the other rows follow unchanged.
\<close>

theorem header_synthesis:
  assumes rows: "table_rows t = r0 # rest"
      and cells: "cells_of r0 \<noteq> []"
      and noth: "\<not> list_ex (is_tag ''th'') (cells_of r0)"
      and nohead: "querySelector t (is_tag ''thead'') = None"
  shows "table_rows (ensureHeaderRow t)
           = synthetic_header (cells_of r0)
             # (if list_all looksLikeHeader (cells_of r0) then rest else r0 # rest)
       \<and> hd (childNodes (ensureHeaderRow t)) = Element ''thead'' [] [synthetic_header (cells_of r0)]
       \<and> cells_of (synthetic_header (cells_of r0))
           = map (\<lambda>(i, c). Element ''th'' []
                    [Text (if looksLikeHeader c then trim (textContent c)
                           else ''Column '' @ nat_string (i + 1))])
                 (zip [0..<length (cells_of r0)] (cells_of r0))
       \<and> (\<forall>c. looksLikeHeader c \<longleftrightarrow>
              trim (textContent c) \<noteq> [] \<and> length (trim (textContent c)) < 50
            \<and> querySelector c (\<lambda>n. is_tag ''img'' n \<or> is_tag ''pre'' n \<or> is_tag ''code'' n
                                   \<or> is_tag ''table'' n) = None)"
proof -
  obtain tg a kids where t: "t = Element tg a kids"
    using rows by (cases t) (auto simp: table_rows_def head_rows_def foot_rows_def)
  from rows t have r3: "rows3 kids = r0 # rest" by (simp add: table_rows_rows3)
  from first_row_props[OF r3] obtain p where
    fp: "first_row_path kids = Some p" and g: "get_at kids p = Some r0" and ne: "p \<noteq> []"
    and rem: "rows3 (remove_at p kids) = rest" by auto
  let ?h = "synthetic_header (cells_of r0)"
  from nohead t have "find_path_from (is_tag ''thead'') 0 kids = None"
    by (simp add: querySelector_def first_desc_None_find_path)
  then have wt: "with_thead kids p = (Element ''thead'' [] [] # kids, Suc (hd p) # tl p, [0])"
    using ne by (cases p) (simp_all add: with_thead_def)
  have upd: "update_at [0] (append_child ?h) (Element ''thead'' [] [] # kids)
           = Element ''thead'' [] [?h] # kids"
    by (simp add: append_child_def)
  have res: "ensureHeaderRow t = Element tg a
      (if list_all looksLikeHeader (cells_of r0)
       then Element ''thead'' [] [?h] # remove_at p kids
       else Element ''thead'' [] [?h] # kids)"
    using t fp g cells noth wt upd remove_at_Suc[OF ne]
    by (simp add: ensureHeaderRow_def Let_def)
  have 1: "table_rows (ensureHeaderRow t)
           = ?h # (if list_all looksLikeHeader (cells_of r0) then rest else r0 # rest)"
    using res r3 rem by (simp add: table_rows_rows3 rows3_new_thead synthetic_header_tr)
  have 2: "hd (childNodes (ensureHeaderRow t)) = Element ''thead'' [] [?h]"
    using res by simp
  have 3: "cells_of ?h = map (\<lambda>(i, c). Element ''th'' []
                    [Text (if looksLikeHeader c then trim (textContent c)
                           else ''Column '' @ nat_string (i + 1))])
                 (zip [0..<length (cells_of r0)] (cells_of r0))"
    unfolding cells_of_synthetic_header
    by (rule map_cong) (auto simp: set_text_def header_label_nonempty, auto simp: header_label_def)
  have 4: "\<forall>c. looksLikeHeader c \<longleftrightarrow>
              trim (textContent c) \<noteq> [] \<and> length (trim (textContent c)) < 50
            \<and> querySelector c (\<lambda>n. is_tag ''img'' n \<or> is_tag ''pre'' n \<or> is_tag ''code'' n
                                   \<or> is_tag ''table'' n) = None"
    by (simp add: looksLikeHeader_def Let_def)
  show ?thesis using 1 2 3 4 by blast
qed

theorem header_synthesis_witness:
  "table_rows (ensureHeaderRow names_table)
     = [Element ''tr'' [] [Element ''th'' [] [Text ''Name''], Element ''th'' [] [Text ''Age'']],
        Element ''tr'' [] [Element ''td'' [] [Text ''Bob''], Element ''td'' [] [Text ''42'']]]"
proof -
  let ?r0 = "Element ''tr'' [] [Element ''td'' [] [Text ''Name''], Element ''td'' [] [Text ''Age'']]"
  let ?r1 = "Element ''tr'' [] [Element ''td'' [] [Text ''Bob''], Element ''td'' [] [Text ''42'']]"
  have a: "table_rows names_table = ?r0 # [?r1]" by code_simp
  have b: "cells_of ?r0 \<noteq> []" by code_simp
  have c: "\<not> list_ex (is_tag ''th'') (cells_of ?r0)" by code_simp
  have d: "querySelector names_table (is_tag ''thead'') = None" by code_simp
  have e: "synthetic_header (cells_of ?r0)
             = Element ''tr'' [] [Element ''th'' [] [Text ''Name''], Element ''th'' [] [Text ''Age'']]"
    by code_simp
  have f: "list_all looksLikeHeader (cells_of ?r0)" by code_simp
  have "table_rows (ensureHeaderRow names_table)
          = synthetic_header (cells_of ?r0)
            # (if list_all looksLikeHeader (cells_of ?r0) then [?r1] else ?r0 # [?r1])"
    using header_synthesis [OF a b c d] by (rule conjunct1)
  then show ?thesis unfolding e using f by simp
qed

text \<open>
  A first row that mixes a \<open>th\<close> with a \<open>td\<close> is not a header-tagged row (the sectioning
  step leaves it in the body), and yet no header is synthesized for it: the guard of the
  header step is satisfied by a single \<open>th\<close>.
\<close>

theorem mixed_first_row_counterexample:
  "normalizeTable plain_env mixed_table = Inr mixed_table
   \<and> \<not> list_all (is_tag ''th'') (cells_of (hd (table_rows mixed_table)))
   \<and> querySelector mixed_table (is_tag ''thead'') = None
   \<and> \<not> isHeadingRow None (hd (childNodes mixed_table)) 0"
  by code_simp

text \<open>
  The example of the claim, from the table to the text: the two rows of \<open>td\<close> cells are
  normalized to a header of \<open>Name\<close> and \<open>Age\<close> and one data row, and rendered with one
  separator line under the header.
\<close>

lemma names_table_rendering:
  "normalizeTable plain_env names_table
     = Inr (Element ''table'' []
         [Element ''thead'' [] [Element ''tr'' [] [Element ''th'' [] [Text ''Name''],
                                                   Element ''th'' [] [Text ''Age'']]],
          Element ''tbody'' [] [Element ''tr'' [] [Element ''td'' [] [Text ''Bob''],
                                                   Element ''td'' [] [Text ''42'']]]])"
  "render_table textContent
     (Element ''table'' []
         [Element ''thead'' [] [Element ''tr'' [] [Element ''th'' [] [Text ''Name''],
                                                   Element ''th'' [] [Text ''Age'']]],
          Element ''tbody'' [] [Element ''tr'' [] [Element ''td'' [] [Text ''Bob''],
                                                   Element ''td'' [] [Text ''42'']]]])
     = [CHR 0x0A, CHR 0x0A] @ ''| Name | Age |'' @ [CHR 0x0A] @ ''| --- | --- |'' @ [CHR 0x0A]
       @ ''| Bob | 42 |'' @ [CHR 0x0A, CHR 0x0A]"
  by code_simp+

subsection \<open>The separator line\<close>






lemma trim_id:
  assumes "s \<noteq> []" "\<not> is_space (hd s)" "\<not> is_space (last s)"
  shows "trim s = s"
proof -
  have a: "dropWhile is_space s = s" using assms by (cases s) auto
  obtain xs x where x: "s = xs @ [x]" using assms(1) by (cases s rule: rev_cases) auto
  have "dropWhile is_space (rev s) = rev s" using assms(3) unfolding x by simp
  with a show ?thesis by (simp add: trim_def)
qed

lemma separator_lineI:
  assumes "3 \<le> length s" "hd s = CHR ''|''" "last s = CHR ''|''" "list_all separator_char s"
  shows "is_separator_line s"
proof -
  have ne: "s \<noteq> []" using assms(1) by auto
  have t: "trim s = s" using ne assms(2,3) by (intro trim_id) (simp_all add: is_space_def)
  have "set (butlast (tl s)) \<subseteq> set s"
    using ne by (meson in_set_butlastD list.set_sel(2) subsetI tl_Nil butlast.simps
        in_set_butlastD list.set_sel(2))
  with assms(4) have "list_all separator_char (butlast (tl s))" by (auto simp: list_all_iff)
  with t assms show ?thesis by (simp add: is_separator_line_def)
qed

lemma list_all_concat_map: "(\<And>x. list_all P (f x)) \<Longrightarrow> list_all P (concat (map f xs))"
  by (induction xs) simp_all

lemma synthetic_separator_line: "is_separator_line (synthetic_separator n)"
proof (rule separator_lineI)
  show "3 \<le> length (synthetic_separator n)" by (simp add: synthetic_separator_def)
  show "hd (synthetic_separator n) = CHR ''|''" by (simp add: synthetic_separator_def)
  show "last (synthetic_separator n) = CHR ''|''" by (simp add: synthetic_separator_def)
  have "list_all separator_char (concat (map (\<lambda>i. (if i = 0 then [] else '' | '') @ ''---'') [0..<n]))"
    by (rule list_all_concat_map) (simp add: separator_char_def is_space_def)
  then show "list_all separator_char (synthetic_separator n)"
    by (simp add: synthetic_separator_def separator_char_def is_space_def)
qed


lemma align_border_chars: "list_all separator_char (align_border c)"
  by (simp add: align_border_def Let_def separator_char_def)

lemma separator_piece_chars:
  "list_all separator_char ((if i = (0::nat) then ''| '' else '' '') @ align_border c @ '' |'')"
  using align_border_chars[of c] by (simp add: separator_char_def is_space_def)

lemma separator_cells_chars: "list_all separator_char (separator_cells cs)"
  unfolding separator_cells_def
proof (rule list_all_concat_map)
  fix x :: "nat \<times> node"
  show "list_all separator_char
          (case x of (i, c) \<Rightarrow> (if i = 0 then ''| '' else '' '') @ align_border c @ '' |'')"
    using separator_piece_chars by (cases x) simp
qed

lemma align_border_length: "length (align_border c) = 3"
  by (simp add: align_border_def Let_def)

lemma separator_cells_line:
  assumes "cs \<noteq> []"
  shows "is_separator_line (separator_cells cs)"
proof (rule separator_lineI)
  obtain c cs' where c: "cs = c # cs'" using assms by (cases cs) auto
  have "[0..<length cs] = 0 # [1..<length cs]"
    using c by (simp add: upt_conv_Cons del: upt_Suc)
  then have z: "zip [0..<length cs] cs = (0, c) # zip [1..<length cs] cs'"
    using c by simp
  then have s: "separator_cells cs = ''| '' @ align_border c @ '' |''
      @ concat (map (\<lambda>(i, c). (if i = 0 then ''| '' else '' '') @ align_border c @ '' |'')
                 (zip [1..<length cs] cs'))"
    by (simp add: separator_cells_def)
  show "hd (separator_cells cs) = CHR ''|''" unfolding s by simp
  show "3 \<le> length (separator_cells cs)" unfolding s by simp
  obtain xs x where x: "cs = xs @ [x]" using assms by (cases cs rule: rev_cases) auto
  have "zip [0..<length cs] cs = zip [0..<length xs] xs @ [(length xs, x)]"
    using x by simp
  then have "separator_cells cs
      = concat (map (\<lambda>(i, c). (if i = 0 then ''| '' else '' '') @ align_border c @ '' |'')
                 (zip [0..<length xs] xs))
        @ (if length xs = 0 then ''| '' else '' '') @ align_border x @ '' |''"
    by (simp add: separator_cells_def)
  then show "last (separator_cells cs) = CHR ''|''" by simp
  show "list_all separator_char (separator_cells cs)" by (rule separator_cells_chars)
qed











subsection \<open>A second run\<close>

























end
